theory Spec2Isabelle
  imports Main "HOL-Library.Multiset" "HOL-Library.Char_ord" "HOL-Library.List_Lexorder"
begin

section \<open>Data model (types/index.ts)\<close>

text \<open>
  The interfaces Comment, Card, List and Board. Field names are prefixed where the
  TypeScript names repeat (\<open>id\<close>, \<open>title\<close>, \<open>createdAt\<close>) or clash with a HOL constant.
  Timestamps are the ISO-8601 strings of \<open>new Date().toISOString()\<close>.

  The TypeScript types say that \<open>cards\<close> and \<open>lists\<close> hold objects only. At run time
  \<open>Array.prototype.splice\<close> with an out-of-range start removes nothing, the destructuring
  \<open>const [removed] = ...\<close> then binds \<open>undefined\<close>, and the second splice inserts it. The two
  arrays that are spliced are therefore modelled as lists of options, \<open>None\<close> standing
  for an \<open>undefined\<close> entry.
\<close>

record comment =
  comment_id :: string
  comment_text :: string
  comment_createdAt :: string

record card =
  card_id :: string
  card_title :: string
  card_description :: "string option"
  card_comments :: "comment list"
  card_createdAt :: string

record list_t =
  list_id :: string
  list_title :: string
  list_cards :: "card option list"

record board =
  board_id :: string
  board_title :: string
  board_lists :: "list_t option list"
  createdAt :: string
  updatedAt :: string

text \<open>Reading a property of \<open>undefined\<close> throws a TypeError.\<close>

datatype error = TypeError

section \<open>Array primitives of the JavaScript runtime\<close>

text \<open>
  \<open>Array.prototype.splice(start, deleteCount, ...items)\<close> on integer arguments: a negative
  start counts from the end, the start is clamped to \<open>[0, length]\<close> and the delete count to
  \<open>[0, length - start]\<close>. The result is the pair of the removed elements and the array
  after the call (the source mutates a private copy).
\<close>

definition relative_start :: "int \<Rightarrow> nat \<Rightarrow> nat" where
  "relative_start start len =
     (if start < 0 then nat (max (int len + start) 0) else min (nat start) len)"

definition splice_js :: "'a list \<Rightarrow> int \<Rightarrow> int \<Rightarrow> 'a list \<Rightarrow> 'a list \<times> 'a list" where
  "splice_js xs start deleteCount items =
     (let s = relative_start start (length xs);
          d = nat (min (max deleteCount 0) (int (length xs) - int s))
      in (take d (drop s xs), take s xs @ items @ drop (s + d) xs))"

text \<open>\<open>const [x] = arr\<close>: the first element, or \<open>undefined\<close> when \<open>arr\<close> is empty.\<close>

fun first_of :: "'a option list \<Rightarrow> 'a option" where
  "first_of [] = None"
| "first_of (x # xs) = x"

text \<open>\<open>Array.prototype.map\<close> and \<open>filter\<close> with a callback that may throw.\<close>

fun map_js :: "('a \<Rightarrow> error + 'b) \<Rightarrow> 'a list \<Rightarrow> error + 'b list" where
  "map_js f [] = Inr []"
| "map_js f (x # xs) =
     (case f x of
        Inl e \<Rightarrow> Inl e
      | Inr y \<Rightarrow> (case map_js f xs of Inl e \<Rightarrow> Inl e | Inr ys \<Rightarrow> Inr (y # ys)))"

fun filter_js :: "('a \<Rightarrow> error + bool) \<Rightarrow> 'a list \<Rightarrow> error + 'a list" where
  "filter_js p [] = Inr []"
| "filter_js p (x # xs) =
     (case p x of
        Inl e \<Rightarrow> Inl e
      | Inr keep \<Rightarrow>
          (case filter_js p xs of
             Inl e \<Rightarrow> Inl e
           | Inr ys \<Rightarrow> Inr (if keep then x # ys else ys)))"

section \<open>utils/helpers.ts\<close>

definition reorderArray :: "'a option list \<Rightarrow> int \<Rightarrow> int \<Rightarrow> 'a option list" where
  "reorderArray xs startIndex endIndex =
     (let (removed_items, result) = splice_js xs startIndex 1 [];
          removed = first_of removed_items
      in snd (splice_js result endIndex 0 [removed]))"

definition moveItemBetweenArrays ::
  "'a option list \<Rightarrow> 'a option list \<Rightarrow> int \<Rightarrow> int \<Rightarrow> 'a option list \<times> 'a option list" where
  "moveItemBetweenArrays source destination sourceIndex destinationIndex =
     (let (removed_items, sourceClone) = splice_js source sourceIndex 1 [];
          removed = first_of removed_items;
          destClone = snd (splice_js destination destinationIndex 0 [removed])
      in (sourceClone, destClone))"

text \<open>
  \<open>safeJsonParse\<close>: \<open>JSON.parse\<close> is the runtime's; it is a parameter that either
  returns a value or throws.
\<close>

definition safeJsonParse :: "(string \<Rightarrow> 'e + 'a) \<Rightarrow> string \<Rightarrow> 'a \<Rightarrow> 'a" where
  "safeJsonParse json_parse json fallback =
     (case json_parse json of Inl e \<Rightarrow> fallback | Inr v \<Rightarrow> v)"

section \<open>constants/index.ts\<close>

text \<open>
  \<open>DEFAULT_BOARD\<close>; every \<open>new Date().toISOString()\<close> in it is evaluated when the module
  is loaded, so the load time is a parameter (the five calls are modelled as reading the
  same instant).
\<close>

definition DEFAULT_BOARD :: "string \<Rightarrow> board" where
  "DEFAULT_BOARD loaded =
     \<lparr>board_id = ''board-1'', board_title = ''Demo Board'',
      board_lists =
        [Some \<lparr>list_id = ''list-1'', list_title = ''Todo'',
               list_cards =
                 [Some \<lparr>card_id = ''card-1'', card_title = ''Create interview Kanban'',
                        card_description = None, card_comments = [],
                        card_createdAt = loaded\<rparr>,
                  Some \<lparr>card_id = ''card-2'', card_title = ''Review Drag & Drop'',
                        card_description = None, card_comments = [],
                        card_createdAt = loaded\<rparr>]\<rparr>,
         Some \<lparr>list_id = ''list-2'', list_title = ''In Progress'',
               list_cards =
                 [Some \<lparr>card_id = ''card-3'', card_title = ''Set up Next.js project'',
                        card_description = None, card_comments = [],
                        card_createdAt = loaded\<rparr>]\<rparr>,
         Some \<lparr>list_id = ''list-3'', list_title = ''Done'', list_cards = []\<rparr>],
      createdAt = loaded, updatedAt = loaded\<rparr>"

section \<open>hooks/useBoard.ts: the state updaters\<close>

text \<open>
  Each operation hands \<open>setBoard\<close> an updater \<open>prev \<Rightarrow> next\<close>; the updater is what is
  modelled. The \<open>getCurrentTimestamp()\<close> inside the updater is the parameter \<open>now\<close>, the
  one read when a card or comment is built, before the updater runs, is the parameter
  \<open>created\<close>, and \<open>generateId\<close> is the parameter \<open>newId\<close>. Indices are integers, as the
  callers produce them with \<open>findIndex\<close> and \<open>length\<close>.

  \<open>at_list\<close> is the callback \<open>(list) => list.id === listId ? f(list) : list\<close> and
  \<open>at_card\<close> the same for cards; both read \<open>.id\<close> and throw on an \<open>undefined\<close> entry.
\<close>

definition at_list ::
  "string \<Rightarrow> (list_t \<Rightarrow> error + list_t) \<Rightarrow> list_t option \<Rightarrow> error + list_t option" where
  "at_list listId f entry =
     (case entry of
        None \<Rightarrow> Inl TypeError
      | Some l \<Rightarrow>
          if list_id l = listId
          then (case f l of Inl e \<Rightarrow> Inl e | Inr l' \<Rightarrow> Inr (Some l'))
          else Inr (Some l))"

definition at_card :: "string \<Rightarrow> (card \<Rightarrow> card) \<Rightarrow> card option \<Rightarrow> error + card option" where
  "at_card cardId g entry =
     (case entry of
        None \<Rightarrow> Inl TypeError
      | Some c \<Rightarrow> Inr (Some (if card_id c = cardId then g c else c)))"

text \<open>\<open>{...prev, lists: ..., updatedAt: getCurrentTimestamp()}\<close>\<close>

definition with_lists :: "string \<Rightarrow> board \<Rightarrow> error + list_t option list \<Rightarrow> error + board" where
  "with_lists now prev r =
     (case r of
        Inl e \<Rightarrow> Inl e
      | Inr ls \<Rightarrow> Inr (prev\<lparr>board_lists := ls, updatedAt := now\<rparr>))"

definition updateBoardTitle :: "string \<Rightarrow> string \<Rightarrow> board \<Rightarrow> board" where
  "updateBoardTitle now title prev = prev\<lparr>board_title := title, updatedAt := now\<rparr>"

definition resetBoard :: "string \<Rightarrow> board \<Rightarrow> board" where
  "resetBoard loaded prev = DEFAULT_BOARD loaded"

definition addList :: "string \<Rightarrow> string \<Rightarrow> string \<Rightarrow> board \<Rightarrow> board" where
  "addList now newId title prev =
     prev\<lparr>board_lists :=
            board_lists prev @ [Some \<lparr>list_id = newId, list_title = title, list_cards = []\<rparr>],
          updatedAt := now\<rparr>"

definition updateListTitle :: "string \<Rightarrow> string \<Rightarrow> string \<Rightarrow> board \<Rightarrow> error + board" where
  "updateListTitle now listId title prev =
     with_lists now prev
       (map_js (at_list listId (\<lambda>l. Inr (l\<lparr>list_title := title\<rparr>))) (board_lists prev))"

definition deleteList :: "string \<Rightarrow> string \<Rightarrow> board \<Rightarrow> error + board" where
  "deleteList now listId prev =
     with_lists now prev
       (filter_js (\<lambda>entry. case entry of None \<Rightarrow> Inl TypeError
                                        | Some l \<Rightarrow> Inr (list_id l \<noteq> listId))
          (board_lists prev))"

definition deleteAllCards :: "string \<Rightarrow> string \<Rightarrow> board \<Rightarrow> error + board" where
  "deleteAllCards now listId prev =
     with_lists now prev
       (map_js (at_list listId (\<lambda>l. Inr (l\<lparr>list_cards := []\<rparr>))) (board_lists prev))"

definition reorderLists :: "string \<Rightarrow> int \<Rightarrow> int \<Rightarrow> board \<Rightarrow> board" where
  "reorderLists now startIndex endIndex prev =
     prev\<lparr>board_lists := reorderArray (board_lists prev) startIndex endIndex,
          updatedAt := now\<rparr>"

definition addCard ::
  "string \<Rightarrow> string \<Rightarrow> string \<Rightarrow> string \<Rightarrow> string \<Rightarrow> board \<Rightarrow> error + board" where
  "addCard now created newId listId title prev =
     (let newCard = \<lparr>card_id = newId, card_title = title, card_description = None,
                     card_comments = [], card_createdAt = created\<rparr>
      in with_lists now prev
           (map_js (at_list listId (\<lambda>l. Inr (l\<lparr>list_cards := list_cards l @ [Some newCard]\<rparr>)))
              (board_lists prev)))"

definition on_cards ::
  "(card option \<Rightarrow> error + card option) \<Rightarrow> list_t \<Rightarrow> error + list_t" where
  "on_cards cb l =
     (case map_js cb (list_cards l) of
        Inl e \<Rightarrow> Inl e
      | Inr cs \<Rightarrow> Inr (l\<lparr>list_cards := cs\<rparr>))"

definition updateCardTitle ::
  "string \<Rightarrow> string \<Rightarrow> string \<Rightarrow> string \<Rightarrow> board \<Rightarrow> error + board" where
  "updateCardTitle now listId cardId title prev =
     with_lists now prev
       (map_js (at_list listId (on_cards (at_card cardId (\<lambda>c. c\<lparr>card_title := title\<rparr>))))
          (board_lists prev))"

definition deleteCard :: "string \<Rightarrow> string \<Rightarrow> string \<Rightarrow> board \<Rightarrow> error + board" where
  "deleteCard now listId cardId prev =
     with_lists now prev
       (map_js
          (at_list listId
             (\<lambda>l. case filter_js (\<lambda>entry. case entry of None \<Rightarrow> Inl TypeError
                                                      | Some c \<Rightarrow> Inr (card_id c \<noteq> cardId))
                         (list_cards l) of
                     Inl e \<Rightarrow> Inl e
                   | Inr cs \<Rightarrow> Inr (l\<lparr>list_cards := cs\<rparr>)))
          (board_lists prev))"

definition reorderCards :: "string \<Rightarrow> string \<Rightarrow> int \<Rightarrow> int \<Rightarrow> board \<Rightarrow> error + board" where
  "reorderCards now listId startIndex endIndex prev =
     with_lists now prev
       (map_js
          (at_list listId
             (\<lambda>l. Inr (l\<lparr>list_cards := reorderArray (list_cards l) startIndex endIndex\<rparr>)))
          (board_lists prev))"

text \<open>
  \<open>prev.lists.find((l) => l.id === id)\<close>: stops at the first match, throws at an
  \<open>undefined\<close> entry met before it, returns \<open>undefined\<close> when nothing matches.
\<close>

fun find_list :: "string \<Rightarrow> list_t option list \<Rightarrow> error + list_t option" where
  "find_list listId [] = Inr None"
| "find_list listId (None # rest) = Inl TypeError"
| "find_list listId (Some l # rest) =
     (if list_id l = listId then Inr (Some l) else find_list listId rest)"

text \<open>
  \<open>moveCard\<close>. When both ids are equal, \<open>destCards\<close> aliases \<open>sourceCards\<close> and the second
  splice goes to \<open>sourceCards\<close>; the destination branch of the final map is then
  unreachable, so the alias is never read.
\<close>

definition moveCard_cb ::
  "string \<Rightarrow> string \<Rightarrow> card option list \<Rightarrow> card option list \<Rightarrow> list_t option
     \<Rightarrow> error + list_t option" where
  "moveCard_cb sourceListId destListId sourceCards destCards entry =
     (case entry of
        None \<Rightarrow> Inl TypeError
      | Some l \<Rightarrow>
          if list_id l = sourceListId then Inr (Some (l\<lparr>list_cards := sourceCards\<rparr>))
          else if list_id l = destListId \<and> sourceListId \<noteq> destListId
               then Inr (Some (l\<lparr>list_cards := destCards\<rparr>))
          else Inr (Some l))"

definition moveCard :: "string \<Rightarrow> string \<Rightarrow> string \<Rightarrow> int \<Rightarrow> int \<Rightarrow> board \<Rightarrow> error + board" where
  "moveCard now sourceListId destListId sourceIndex destIndex prev =
     (case find_list sourceListId (board_lists prev) of
        Inl e \<Rightarrow> Inl e
      | Inr sourceFound \<Rightarrow>
     (case find_list destListId (board_lists prev) of
        Inl e \<Rightarrow> Inl e
      | Inr destFound \<Rightarrow>
     (case (sourceFound, destFound) of
        (Some sourceList, Some destList) \<Rightarrow>
          (let (removed_items, sourceCards1) = splice_js (list_cards sourceList) sourceIndex 1 [];
               movedCard = first_of removed_items;
               sourceCards = (if sourceListId = destListId
                              then snd (splice_js sourceCards1 destIndex 0 [movedCard])
                              else sourceCards1);
               destCards = (if sourceListId = destListId
                            then sourceCards
                            else snd (splice_js (list_cards destList) destIndex 0 [movedCard]))
           in with_lists now prev
                (map_js (moveCard_cb sourceListId destListId sourceCards destCards)
                   (board_lists prev)))
      | _ \<Rightarrow> Inr prev)))"

definition addComment ::
  "string \<Rightarrow> string \<Rightarrow> string \<Rightarrow> string \<Rightarrow> string \<Rightarrow> string \<Rightarrow> board
     \<Rightarrow> error + board" where
  "addComment now created newId listId cardId text prev =
     (let newComment = \<lparr>comment_id = newId, comment_text = text, comment_createdAt = created\<rparr>
      in with_lists now prev
           (map_js
              (at_list listId
                 (on_cards
                    (at_card cardId (\<lambda>c. c\<lparr>card_comments := card_comments c @ [newComment]\<rparr>))))
              (board_lists prev)))"

subsection \<open>Predicates on boards\<close>

text \<open>The entries of an array that are objects, in order.\<close>

fun defined :: "'a option list \<Rightarrow> 'a list" where
  "defined [] = []"
| "defined (None # xs) = defined xs"
| "defined (Some x # xs) = x # defined xs"

text \<open>A board as the TypeScript type \<open>Board\<close> describes it: no \<open>undefined\<close> list entry.\<close>

definition lists_defined :: "board \<Rightarrow> bool" where
  "lists_defined b = list_all (\<lambda>entry. entry \<noteq> None) (board_lists b)"

definition list_ids :: "board \<Rightarrow> string list" where
  "list_ids b = map list_id (defined (board_lists b))"

text \<open>The number of entries in all \<open>cards\<close> arrays of the board.\<close>

definition total_cards :: "board \<Rightarrow> nat" where
  "total_cards b = sum_list (map (\<lambda>l. length (list_cards l)) (defined (board_lists b)))"

text \<open>Two results are the same up to the timestamp written by the operation.\<close>

definition strip_updatedAt :: "error + board \<Rightarrow> error + board" where
  "strip_updatedAt r = (case r of Inl e \<Rightarrow> Inl e | Inr b \<Rightarrow> Inr (b\<lparr>updatedAt := []\<rparr>))"

text \<open>The board of the scenario: Todo holds the cards C1 and C2, Done is empty.\<close>

definition scenario_board :: board where
  "scenario_board =
     \<lparr>board_id = ''board-1'', board_title = ''Scenario'',
      board_lists =
        [Some \<lparr>list_id = ''todo'', list_title = ''Todo'',
               list_cards =
                 [Some \<lparr>card_id = ''C1'', card_title = ''first'', card_description = None,
                        card_comments = [], card_createdAt = ''2026-01-01T00:00:00.000Z''\<rparr>,
                  Some \<lparr>card_id = ''C2'', card_title = ''second'', card_description = None,
                        card_comments = [], card_createdAt = ''2026-01-01T00:00:00.000Z''\<rparr>]\<rparr>,
         Some \<lparr>list_id = ''done'', list_title = ''Done'', list_cards = []\<rparr>],
      createdAt = ''2026-01-01T00:00:00.000Z'', updatedAt = ''2026-01-01T00:00:00.000Z''\<rparr>"

section \<open>hooks/useLocalStorage.ts\<close>

text \<open>
  The entry of \<open>localStorage\<close> under the hook's key. \<open>getItem\<close> throws when storage is
  not accessible, \<open>setItem\<close> and \<open>removeItem\<close> throw when it is not writable (disabled
  storage, exceeded quota); both conditions belong to the environment.
\<close>

record storage_t =
  entry :: "string option"
  readable :: bool
  writable :: bool

definition getItem :: "storage_t \<Rightarrow> unit + string option" where
  "getItem st = (if readable st then Inr (entry st) else Inl ())"

definition setItem :: "storage_t \<Rightarrow> string \<Rightarrow> unit + storage_t" where
  "setItem st v = (if writable st then Inr (st\<lparr>entry := Some v\<rparr>) else Inl ())"

definition removeItem :: "storage_t \<Rightarrow> unit + storage_t" where
  "removeItem st = (if writable st then Inr (st\<lparr>entry := None\<rparr>) else Inl ())"

text \<open>The calls the hook makes to \<open>localStorage\<close>, in the order it makes them.\<close>

datatype io = GetItem | SetItem string | RemoveItem

text \<open>
  One instance of the hook: the two pieces of React state, the ref, the storage entry,
  the log of storage calls and the number of \<open>console.error\<close> calls.
\<close>

record 'a hook =
  storedValue :: 'a
  isHydrated :: bool
  isFirstRender :: bool
  store :: storage_t
  calls :: "io list"
  logged :: nat

text \<open>\<open>useState(initialValue)\<close>, \<open>useState(false)\<close>, \<open>useRef(true)\<close>.\<close>

definition initial_hook :: "'a \<Rightarrow> storage_t \<Rightarrow> 'a hook" where
  "initial_hook initialValue st =
     \<lparr>storedValue = initialValue, isHydrated = False, isFirstRender = True,
      store = st, calls = [], logged = 0\<rparr>"

text \<open>
  The body of the first effect. The deserializer (by default \<open>JSON.parse\<close>) is a
  parameter that returns a value or throws; \<open>if (item)\<close> is false for \<open>null\<close> and for the
  empty string. Both state setters are called in the same effect, so the two updates
  reach the next render together.
\<close>

definition hydrate_effect :: "(string \<Rightarrow> 'e + 'a) \<Rightarrow> 'a hook \<Rightarrow> 'a hook" where
  "hydrate_effect deserializer h =
     (if isFirstRender h
      then (let h1 = h\<lparr>isFirstRender := False, calls := calls h @ [GetItem]\<rparr>;
                h2 = (case getItem (store h) of
                        Inl e \<Rightarrow> h1\<lparr>logged := Suc (logged h1)\<rparr>
                      | Inr None \<Rightarrow> h1
                      | Inr (Some item) \<Rightarrow>
                          if item = [] then h1
                          else (case deserializer item of
                                  Inl e \<Rightarrow> h1\<lparr>logged := Suc (logged h1)\<rparr>
                                | Inr v \<Rightarrow> h1\<lparr>storedValue := v\<rparr>))
            in h2\<lparr>isHydrated := True\<rparr>)
      else h)"

text \<open>
  The body of the second effect, with the \<open>storedValue\<close> and \<open>isHydrated\<close> of the render
  that scheduled it. The serializer (by default \<open>JSON.stringify\<close>) may throw as well.
\<close>

definition write_effect :: "('a \<Rightarrow> 'e + string) \<Rightarrow> 'a \<Rightarrow> bool \<Rightarrow> 'a hook \<Rightarrow> 'a hook" where
  "write_effect serializer v hydrated h =
     (if hydrated
      then (case serializer v of
              Inl e \<Rightarrow> h\<lparr>logged := Suc (logged h)\<rparr>
            | Inr s \<Rightarrow>
                (case setItem (store h) s of
                   Inl e \<Rightarrow> h\<lparr>calls := calls h @ [SetItem s], logged := Suc (logged h)\<rparr>
                 | Inr st \<Rightarrow> h\<lparr>calls := calls h @ [SetItem s], store := st\<rparr>))
      else h)"

text \<open>
  What React does after the handlers of an event have run: when a state setter was given
  a value that is not \<open>Object.is\<close>-identical to the current state it renders again, and
  an effect runs again when one of its dependencies changed. Of the dependencies
  \<open>[key, serializer, storedValue, isHydrated]\<close> of the second effect the first two are
  taken as stable. \<open>same\<close> is \<open>Object.is\<close> on the values of type \<open>T\<close>: equality for
  primitive values, identity for objects.
\<close>

definition commit ::
  "('a \<Rightarrow> 'a \<Rightarrow> bool) \<Rightarrow> ('a \<Rightarrow> 'e + string) \<Rightarrow> 'a hook \<Rightarrow> 'a hook \<Rightarrow> 'a hook" where
  "commit same serializer prev next =
     (if same (storedValue prev) (storedValue next) \<and> isHydrated prev = isHydrated next
      then next
      else write_effect serializer (storedValue next) (isHydrated next) next)"

text \<open>
  The events of an instance: the first effect fires (on mount, and again whenever React
  fires it again), \<open>setValue\<close> is called with an updater, \<open>removeValue\<close> is called, a
  \<open>storage\<close> event arrives with its \<open>key\<close> and \<open>newValue\<close>.
\<close>

datatype 'a event =
  Activate
  | SetValue "'a \<Rightarrow> 'a"
  | RemoveValue
  | StorageEvent string "string option"

definition setValue :: "('a \<Rightarrow> 'a) \<Rightarrow> 'a hook \<Rightarrow> 'a hook" where
  "setValue f h = h\<lparr>storedValue := f (storedValue h)\<rparr>"

definition removeValue :: "'a \<Rightarrow> 'a hook \<Rightarrow> 'a hook" where
  "removeValue initialValue h =
     (let h1 = h\<lparr>storedValue := initialValue, calls := calls h @ [RemoveItem]\<rparr>
      in case removeItem (store h) of
           Inl e \<Rightarrow> h1\<lparr>logged := Suc (logged h1)\<rparr>
         | Inr st \<Rightarrow> h1\<lparr>store := st\<rparr>)"

definition handleStorageChange ::
  "string \<Rightarrow> (string \<Rightarrow> 'e + 'a) \<Rightarrow> string \<Rightarrow> string option \<Rightarrow> 'a hook \<Rightarrow> 'a hook" where
  "handleStorageChange key deserializer event_key newValue h =
     (case newValue of
        None \<Rightarrow> h
      | Some v \<Rightarrow>
          if event_key = key
          then (case deserializer v of
                  Inl e \<Rightarrow> h\<lparr>logged := Suc (logged h)\<rparr>
                | Inr x \<Rightarrow> h\<lparr>storedValue := x\<rparr>)
          else h)"

text \<open>
  One event: its handler, then the commit. When the second effect is due together with
  the first one (on mount, and when React mounts the effects a second time) it still has
  the \<open>isHydrated = false\<close> of the first render and its body does nothing; that run is
  left out. The model accepts every event in every state and makes the update and its
  commit one step. The code registers the \<open>storage\<close> listener in its third effect, in the
  commit that also runs the first effect, so an instance with \<open>isFirstRender\<close> still true
  receives no \<open>storage\<close> event; the event sequences of the code are among those of the
  model, and what is stated about a \<open>storage\<close> event is stated for hydrated instances.
\<close>

definition step ::
  "string \<Rightarrow> (string \<Rightarrow> 'e + 'a) \<Rightarrow> ('a \<Rightarrow> 'e + string) \<Rightarrow> ('a \<Rightarrow> 'a \<Rightarrow> bool) \<Rightarrow> 'a
     \<Rightarrow> 'a event \<Rightarrow> 'a hook \<Rightarrow> 'a hook" where
  "step key deserializer serializer same initialValue ev h =
     (case ev of
        Activate \<Rightarrow> commit same serializer h (hydrate_effect deserializer h)
      | SetValue f \<Rightarrow> commit same serializer h (setValue f h)
      | RemoveValue \<Rightarrow> commit same serializer h (removeValue initialValue h)
      | StorageEvent k v \<Rightarrow>
          commit same serializer h (handleStorageChange key deserializer k v h))"

fun run ::
  "string \<Rightarrow> (string \<Rightarrow> 'e + 'a) \<Rightarrow> ('a \<Rightarrow> 'e + string) \<Rightarrow> ('a \<Rightarrow> 'a \<Rightarrow> bool) \<Rightarrow> 'a
     \<Rightarrow> 'a event list \<Rightarrow> 'a hook \<Rightarrow> 'a hook" where
  "run key deserializer serializer same initialValue [] h = h"
| "run key deserializer serializer same initialValue (ev # evs) h =
     run key deserializer serializer same initialValue evs
       (step key deserializer serializer same initialValue ev h)"

text \<open>No \<open>setItem\<close> comes before the first \<open>getItem\<close> in a log of storage calls.\<close>

fun no_write_before_read :: "io list \<Rightarrow> bool" where
  "no_write_before_read [] = True"
| "no_write_before_read (GetItem # rest) = True"
| "no_write_before_read (SetItem s # rest) = False"
| "no_write_before_read (RemoveItem # rest) = no_write_before_read rest"

text \<open>
  The invariant of an instance: until the first effect has run, \<open>isHydrated\<close> is false and
  storage was neither read nor written; afterwards it was read exactly once and nothing
  was written before that read.
\<close>

definition hook_inv :: "'a hook \<Rightarrow> bool" where
  "hook_inv h =
     (if isFirstRender h
      then \<not> isHydrated h \<and> list_all (\<lambda>c. c = RemoveItem) (calls h)
      else count_list (calls h) GetItem = 1 \<and> no_write_before_read (calls h))"

text \<open>Every card entry of every list is an object.\<close>

definition cards_defined :: "board \<Rightarrow> bool" where
  "cards_defined b =
     list_all (\<lambda>l. list_all (\<lambda>entry. entry \<noteq> None) (list_cards l)) (defined (board_lists b))"

text \<open>
  The result \<open>r\<close> of an operation called at time \<open>now\<close> on the board \<open>b\<close> is a board
  whose \<open>updatedAt\<close> is \<open>now\<close>, hence not earlier than that of \<open>b\<close> unless the clock
  ran backwards. ISO-8601 strings of equal length are ordered as their instants.
\<close>

definition stamped :: "string \<Rightarrow> board \<Rightarrow> error + board \<Rightarrow> bool" where
  "stamped now b r =
     (case r of
        Inl e \<Rightarrow> False
      | Inr b' \<Rightarrow> updatedAt b' = now \<and> (updatedAt b \<le> now \<longrightarrow> updatedAt b \<le> updatedAt b'))"

section \<open>Facts about the array primitives\<close>

lemma relative_start_valid: "0 \<le> j \<Longrightarrow> nat j \<le> len \<Longrightarrow> relative_start j len = nat j"
  by (simp add: relative_start_def)

lemma splice_remove_valid:
  assumes "0 \<le> i" and "nat i < length xs"
  shows "splice_js xs i 1 [] = ([xs ! nat i], take (nat i) xs @ drop (Suc (nat i)) xs)"
proof -
  have s: "relative_start i (length xs) = nat i"
    using assms by (simp add: relative_start_def)
  have d: "nat (min (max 1 0) (int (length xs) - int (nat i))) = 1"
    using assms by simp
  have "take 1 (drop (nat i) xs) = [xs ! nat i]"
    using assms(2) by (simp add: take_Suc_conv_app_nth Cons_nth_drop_Suc [symmetric])
  then show ?thesis
    unfolding splice_js_def Let_def s d by simp
qed

lemma splice_remove_beyond:
  assumes "int (length xs) \<le> i"
  shows "splice_js xs i 1 [] = ([], xs)"
proof -
  have s: "relative_start i (length xs) = length xs"
    using assms by (simp add: relative_start_def)
  show ?thesis
    unfolding splice_js_def Let_def s by simp
qed

lemma splice_insert:
  "snd (splice_js ys j 0 [v]) =
     take (relative_start j (length ys)) ys @ [v] @ drop (relative_start j (length ys)) ys"
proof -
  have "relative_start j (length ys) \<le> length ys"
    by (auto simp: relative_start_def)
  then have "nat (min (max 0 0) (int (length ys) - int (relative_start j (length ys)))) = 0"
    by simp
  then show ?thesis
    unfolding splice_js_def Let_def by simp
qed

lemma splice_remove_length:
  assumes "0 \<le> i" and "nat i < length xs"
  shows "Suc (length (snd (splice_js xs i 1 []))) = length xs"
  using assms by (simp add: splice_remove_valid)

lemma splice_insert_length: "length (snd (splice_js ys j 0 [v])) = Suc (length ys)"
  by (simp add: splice_insert)

subsection \<open>reorderArray\<close>

lemma reorderArray_valid:
  assumes "0 \<le> i" "nat i < length xs" "0 \<le> j" "nat j < length xs"
  shows "reorderArray xs i j =
           take (nat j) (take (nat i) xs @ drop (Suc (nat i)) xs) @ [xs ! nat i]
             @ drop (nat j) (take (nat i) xs @ drop (Suc (nat i)) xs)"
proof -
  let ?r = "take (nat i) xs @ drop (Suc (nat i)) xs"
  have len: "length ?r = length xs - 1"
    using assms(2) by simp
  have "nat j \<le> length ?r"
    using assms(4) unfolding len by simp
  then have k: "relative_start j (length ?r) = nat j"
    using assms(3) by (rule relative_start_valid [rotated])
  have "reorderArray xs i j = snd (splice_js ?r j 0 [xs ! nat i])"
    by (simp add: reorderArray_def splice_remove_valid [OF assms(1,2)])
  also have "\<dots> = take (nat j) ?r @ [xs ! nat i] @ drop (nat j) ?r"
    by (simp only: splice_insert k)
  finally show ?thesis .
qed

lemma reorderArray_beyond:
  assumes "int (length xs) \<le> i"
  shows "reorderArray xs i j =
           take (relative_start j (length xs)) xs @ [None] @ drop (relative_start j (length xs)) xs"
  using assms by (simp add: reorderArray_def splice_remove_beyond splice_insert)

lemma reorderArray_same:
  assumes "0 \<le> i" "nat i < length xs"
  shows "reorderArray xs i i = xs"
proof -
  have "reorderArray xs i i = take (nat i) xs @ [xs ! nat i] @ drop (Suc (nat i)) xs"
    using assms by (simp add: reorderArray_valid)
  also have "\<dots> = xs"
    using assms(2) by (simp add: id_take_nth_drop [symmetric])
  finally show ?thesis .
qed

lemma mset_remove_nth:
  assumes "n < length xs"
  shows "mset (take n xs @ drop (Suc n) xs) + {#xs ! n#} = mset xs"
proof -
  have "xs = take n xs @ xs ! n # drop (Suc n) xs"
    using assms by (rule id_take_nth_drop)
  then have "mset xs = mset (take n xs @ xs ! n # drop (Suc n) xs)" by simp
  then show ?thesis by simp
qed

lemma mset_insert_at: "mset (take k ys @ [v] @ drop k ys) = mset ys + {#v#}"
proof -
  have "mset (take k ys @ [v] @ drop k ys) = mset (take k ys) + mset (drop k ys) + {#v#}"
    by simp
  also have "mset (take k ys) + mset (drop k ys) = mset (take k ys @ drop k ys)"
    by (simp only: mset_append)
  also have "take k ys @ drop k ys = ys"
    by (rule append_take_drop_id)
  finally show ?thesis .
qed

lemma reorderArray_mset:
  assumes "0 \<le> i" "nat i < length xs" "0 \<le> j" "nat j < length xs"
  shows "mset (reorderArray xs i j) = mset xs"
proof -
  have "mset (reorderArray xs i j) = mset (take (nat i) xs @ drop (Suc (nat i)) xs) + {#xs ! nat i#}"
    using assms by (simp only: reorderArray_valid mset_insert_at)
  then show ?thesis
    using assms(2) by (simp only: mset_remove_nth)
qed

lemma reorderArray_nth:
  assumes "0 \<le> i" "nat i < length xs" "0 \<le> j" "nat j < length xs"
  shows "reorderArray xs i j ! nat j = xs ! nat i"
proof -
  have "length (take (nat j) (take (nat i) xs @ drop (Suc (nat i)) xs)) = nat j"
    using assms by auto
  then have "(take (nat j) (take (nat i) xs @ drop (Suc (nat i)) xs) @ [xs ! nat i]
               @ drop (nat j) (take (nat i) xs @ drop (Suc (nat i)) xs)) ! nat j = xs ! nat i"
    by (metis append_Cons nth_append_length)
  then show ?thesis
    using assms by (simp only: reorderArray_valid)
qed

lemma take_inserted: "length p = n \<Longrightarrow> take n (p @ [v] @ q) = p"
  by simp

lemma drop_inserted: "length p = n \<Longrightarrow> drop (Suc n) (p @ [v] @ q) = q"
  by simp

lemma reorderArray_others:
  assumes "0 \<le> i" "nat i < length xs" "0 \<le> j" "nat j < length xs"
  shows "take (nat j) (reorderArray xs i j) @ drop (Suc (nat j)) (reorderArray xs i j)
           = take (nat i) xs @ drop (Suc (nat i)) xs"
proof -
  let ?r = "take (nat i) xs @ drop (Suc (nat i)) xs"
  have "length ?r = length xs - 1"
    using assms(2) by simp
  then have "nat j \<le> length ?r"
    using assms(4) by simp
  then have l: "length (take (nat j) ?r) = nat j"
    by (simp only: length_take min_absorb2)
  have e: "reorderArray xs i j = take (nat j) ?r @ [xs ! nat i] @ drop (nat j) ?r"
    using assms by (rule reorderArray_valid)
  show ?thesis
    unfolding e take_inserted [OF l] drop_inserted [OF l]
    by (rule append_take_drop_id)
qed

lemma reorderArray_length_any:
  assumes "0 \<le> i" and "nat i < length xs"
  shows "length (reorderArray xs i j) = length xs"
proof -
  have "reorderArray xs i j
          = snd (splice_js (snd (splice_js xs i 1 [])) j 0 [first_of (fst (splice_js xs i 1 []))])"
    by (simp add: reorderArray_def split_beta)
  then have "length (reorderArray xs i j) = Suc (length (snd (splice_js xs i 1 [])))"
    by (simp only: splice_insert_length)
  then show ?thesis
    using splice_remove_length [OF assms] by simp
qed

subsection \<open>Callbacks that may throw\<close>

lemma error_unique: "(e :: error) = TypeError"
  by (cases e) simp

lemma map_js_total:
  "(\<And>x. x \<in> set xs \<Longrightarrow> f x = Inr (g x)) \<Longrightarrow> map_js f xs = Inr (map g xs)"
  by (induction xs) auto

lemma filter_js_total:
  "(\<And>x. x \<in> set xs \<Longrightarrow> p x = Inr (q x)) \<Longrightarrow> filter_js p xs = Inr (filter q xs)"
  by (induction xs) auto

lemma map_js_defined:
  assumes "list_all (\<lambda>entry. entry \<noteq> None) xs"
    and "\<And>l. Some l \<in> set xs \<Longrightarrow> f (Some l) = Inr (Some (g l))"
  shows "map_js f xs = Inr (map (map_option g) xs)"
proof (rule map_js_total)
  fix e assume e: "e \<in> set xs"
  with assms(1) obtain l where "e = Some l" by (auto simp: list_all_iff)
  with e assms(2) show "f e = Inr (map_option g e)" by simp
qed

lemma map_js_undefined:
  assumes "\<not> list_all (\<lambda>entry. entry \<noteq> None) xs" and "f None = Inl TypeError"
  shows "map_js f xs = Inl TypeError"
  using assms(1)
proof (induction xs)
  case Nil
  then show ?case by simp
next
  case (Cons a xs)
  show ?case
  proof (cases "f a")
    case (Inl e)
    then show ?thesis by (simp add: error_unique [of e])
  next
    case (Inr y)
    with assms(2) have "a \<noteq> None" by (cases a) auto
    with Cons have "map_js f xs = Inl TypeError" by simp
    with Inr show ?thesis by simp
  qed
qed

lemma map_id_on: "(\<And>x. x \<in> set xs \<Longrightarrow> g x = x) \<Longrightarrow> map g xs = xs"
  by (induction xs) auto

lemma defined_mem: "Some x \<in> set xs \<Longrightarrow> x \<in> set (defined xs)"
  by (induction xs rule: defined.induct) auto

lemma defined_map: "defined (map (map_option g) xs) = map g (defined xs)"
  by (induction xs rule: defined.induct) simp_all

subsection \<open>Looking a list up by its id\<close>

lemma find_list_absent:
  assumes "list_all (\<lambda>entry. entry \<noteq> None) xs" and "listId \<notin> list_id ` set (defined xs)"
  shows "find_list listId xs = Inr None"
  using assms by (induction listId xs rule: find_list.induct) auto

lemma find_list_defined:
  "list_all (\<lambda>entry. entry \<noteq> None) xs \<Longrightarrow> \<exists>r. find_list listId xs = Inr r"
  by (induction listId xs rule: find_list.induct) auto

lemma find_list_found:
  "find_list k xs = Inr (Some x) \<Longrightarrow> x \<in> set (defined xs) \<and> list_id x = k"
  by (induction k xs rule: find_list.induct) (auto split: if_splits)

lemma find_list_none:
  "find_list k xs = Inr None \<Longrightarrow>
     list_all (\<lambda>entry. entry \<noteq> None) xs \<and> k \<notin> list_id ` set (defined xs)"
  by (induction k xs rule: find_list.induct) (auto split: if_splits)

lemma find_list_present:
  "list_all (\<lambda>entry. entry \<noteq> None) xs \<Longrightarrow> k \<in> list_id ` set (defined xs) \<Longrightarrow>
     \<exists>x. find_list k xs = Inr (Some x)"
  by (induction k xs rule: find_list.induct) auto

lemma distinct_id_unique:
  assumes "distinct (map list_id ls)" "x \<in> set ls" "y \<in> set ls" "list_id x = list_id y"
  shows "x = y"
  using assms by (meson distinct_map inj_onD)

lemma map_by_id:
  assumes "distinct (map list_id (defined xs))" and "x \<in> set (defined xs)"
  shows "map (map_option (\<lambda>l. if list_id l = list_id x then h l else l)) xs
           = map (\<lambda>e. if e = Some x then Some (h x) else e) xs"
proof (rule map_cong [OF refl])
  fix e assume e: "e \<in> set xs"
  show "map_option (\<lambda>l. if list_id l = list_id x then h l else l) e
          = (if e = Some x then Some (h x) else e)"
  proof (cases e)
    case None
    then show ?thesis by simp
  next
    case (Some l)
    with e have "l \<in> set (defined xs)" by (simp add: defined_mem)
    then have "list_id l = list_id x \<longleftrightarrow> l = x"
      using distinct_id_unique [OF assms(1) _ assms(2)] by auto
    with Some show ?thesis by auto
  qed
qed

lemma map_by_two_ids:
  assumes "distinct (map list_id (defined xs))"
    and "x \<in> set (defined xs)" and "y \<in> set (defined xs)"
  shows "map (map_option (\<lambda>l. if list_id l = list_id x then hx l
                               else if list_id l = list_id y \<and> list_id x \<noteq> list_id y then hy l
                               else l)) xs
           = map (\<lambda>e. if e = Some x then Some (hx x)
                      else if e = Some y then Some (hy y) else e) xs"
proof (rule map_cong [OF refl])
  fix e assume e: "e \<in> set xs"
  show "map_option (\<lambda>l. if list_id l = list_id x then hx l
                         else if list_id l = list_id y \<and> list_id x \<noteq> list_id y then hy l
                         else l) e
          = (if e = Some x then Some (hx x) else if e = Some y then Some (hy y) else e)"
  proof (cases e)
    case None
    then show ?thesis by simp
  next
    case (Some l)
    with e have l: "l \<in> set (defined xs)" by (simp add: defined_mem)
    have "list_id l = list_id x \<longleftrightarrow> l = x"
      using distinct_id_unique [OF assms(1) l assms(2)] by auto
    moreover have "list_id l = list_id y \<longleftrightarrow> l = y"
      using distinct_id_unique [OF assms(1) l assms(3)] by auto
    ultimately show ?thesis
      using Some by auto
  qed
qed

section \<open>Facts about the board operations\<close>

lemma at_list_other:
  assumes "list_all (\<lambda>entry. entry \<noteq> None) xs" and "listId \<notin> list_id ` set (defined xs)"
  shows "map_js (at_list listId f) xs = Inr xs"
proof -
  have "map_js (at_list listId f) xs = Inr (map (\<lambda>e. e) xs)"
  proof (rule map_js_total)
    fix e assume e: "e \<in> set xs"
    with assms(1) obtain l where l: "e = Some l" by (auto simp: list_all_iff)
    with e have "l \<in> set (defined xs)" by (simp add: defined_mem)
    with assms(2) have "list_id l \<noteq> listId" by auto
    with l show "at_list listId f e = Inr e" by (simp add: at_list_def)
  qed
  then show ?thesis by simp
qed

lemma filter_other:
  assumes "list_all (\<lambda>entry. entry \<noteq> None) xs" and "listId \<notin> list_id ` set (defined xs)"
  shows "filter_js (\<lambda>entry. case entry of None \<Rightarrow> Inl TypeError
                                        | Some l \<Rightarrow> Inr (list_id l \<noteq> listId)) xs = Inr xs"
proof -
  have "filter_js (\<lambda>entry. case entry of None \<Rightarrow> Inl TypeError
                                        | Some l \<Rightarrow> Inr (list_id l \<noteq> listId)) xs = Inr (filter (\<lambda>e. True) xs)"
  proof (rule filter_js_total)
    fix e assume e: "e \<in> set xs"
    with assms(1) obtain l where l: "e = Some l" by (auto simp: list_all_iff)
    with e have "l \<in> set (defined xs)" by (simp add: defined_mem)
    with assms(2) have "list_id l \<noteq> listId" by auto
    with l show "(case e of None \<Rightarrow> Inl TypeError | Some l \<Rightarrow> Inr (list_id l \<noteq> listId)) = Inr True" by simp
  qed
  then show ?thesis by simp
qed

lemma with_lists_same: "with_lists now b (Inr (board_lists b)) = Inr (b\<lparr>updatedAt := now\<rparr>)"
  by (simp add: with_lists_def)

lemma reorderCards_defined:
  assumes "lists_defined b"
  shows "reorderCards now k i j b =
           Inr (b\<lparr>board_lists :=
                    map (map_option (\<lambda>l. if list_id l = k
                                          then l\<lparr>list_cards := reorderArray (list_cards l) i j\<rparr>
                                          else l)) (board_lists b),
                  updatedAt := now\<rparr>)"
proof -
  have "map_js (at_list k (\<lambda>l. Inr (l\<lparr>list_cards := reorderArray (list_cards l) i j\<rparr>)))
          (board_lists b)
        = Inr (map (map_option (\<lambda>l. if list_id l = k
                                      then l\<lparr>list_cards := reorderArray (list_cards l) i j\<rparr>
                                      else l)) (board_lists b))"
    using assms unfolding lists_defined_def
    by (rule map_js_defined) (simp add: at_list_def)
  then show ?thesis
    by (simp add: reorderCards_def with_lists_def)
qed

lemma moveCard_cb_defined:
  assumes "list_all (\<lambda>entry. entry \<noteq> None) xs"
  shows "map_js (moveCard_cb s d sc dc) xs =
           Inr (map (map_option (\<lambda>l. if list_id l = s then l\<lparr>list_cards := sc\<rparr>
                                      else if list_id l = d \<and> s \<noteq> d then l\<lparr>list_cards := dc\<rparr>
                                      else l)) xs)"
  using assms by (rule map_js_defined) (simp add: moveCard_cb_def)

lemma moveCard_found:
  assumes "lists_defined b"
    and "find_list s (board_lists b) = Inr (Some src)"
    and "find_list d (board_lists b) = Inr (Some dst)"
  shows "moveCard now s d i j b =
           Inr (b\<lparr>board_lists :=
                    map (map_option
                          (\<lambda>l. if list_id l = s
                               then l\<lparr>list_cards :=
                                        (if s = d then reorderArray (list_cards src) i j
                                         else snd (splice_js (list_cards src) i 1 []))\<rparr>
                               else if list_id l = d \<and> s \<noteq> d
                               then l\<lparr>list_cards :=
                                        snd (splice_js (list_cards dst) j 0
                                               [first_of (fst (splice_js (list_cards src) i 1 []))])\<rparr>
                               else l)) (board_lists b),
                  updatedAt := now\<rparr>)"
proof -
  have d: "list_all (\<lambda>entry. entry \<noteq> None) (board_lists b)"
    using assms(1) by (simp add: lists_defined_def)
  show ?thesis
  proof (cases "s = d")
    case True
    with assms(2,3) have e: "src = dst" by simp
    have f: "find_list d (board_lists b) = Inr (Some dst)" by (rule assms(3))
    show ?thesis
      unfolding True e
      by (simp add: moveCard_def f moveCard_cb_defined [OF d] with_lists_def
            reorderArray_def split_beta Let_def cong: if_cong)
  next
    case False
    then show ?thesis
      by (simp add: moveCard_def assms(2,3) moveCard_cb_defined [OF d] with_lists_def
            split_beta Let_def)
  qed
qed

lemma reorderCards_at:
  assumes "lists_defined b" and "distinct (list_ids b)"
    and "find_list listId (board_lists b) = Inr (Some l)"
  shows "reorderCards now listId i j b =
           Inr (b\<lparr>board_lists :=
                    map (\<lambda>e. if e = Some l
                              then Some (l\<lparr>list_cards := reorderArray (list_cards l) i j\<rparr>)
                              else e) (board_lists b),
                  updatedAt := now\<rparr>)"
proof -
  from find_list_found [OF assms(3)]
  have m: "l \<in> set (defined (board_lists b))" and k: "list_id l = listId" by simp_all
  have d: "distinct (map list_id (defined (board_lists b)))"
    using assms(2) by (simp add: list_ids_def)
  show ?thesis
    unfolding reorderCards_defined [OF assms(1)] k [symmetric]
    by (simp only: map_by_id [OF d m, where h = "\<lambda>l. l\<lparr>list_cards := reorderArray (list_cards l) i j\<rparr>"])
qed

lemma moveCard_same:
  assumes "lists_defined b" and "distinct (list_ids b)"
    and "find_list listId (board_lists b) = Inr (Some src)"
  shows "moveCard now listId listId i j b =
           Inr (b\<lparr>board_lists :=
                    map (\<lambda>e. if e = Some src
                              then Some (src\<lparr>list_cards := reorderArray (list_cards src) i j\<rparr>)
                              else e) (board_lists b),
                  updatedAt := now\<rparr>)"
proof -
  from find_list_found [OF assms(3)]
  have m: "src \<in> set (defined (board_lists b))" and k: "list_id src = listId" by simp_all
  have dd: "distinct (map list_id (defined (board_lists b)))"
    using assms(2) by (simp add: list_ids_def)
  have "moveCard now listId listId i j b =
          Inr (b\<lparr>board_lists :=
                   map (map_option
                         (\<lambda>l. if list_id l = list_id src
                              then l\<lparr>list_cards := reorderArray (list_cards src) i j\<rparr>
                              else l)) (board_lists b),
                 updatedAt := now\<rparr>)"
    unfolding moveCard_found [OF assms(1,3,3)] by (simp add: k cong: if_cong)
  then show ?thesis
    by (simp only: map_by_id [OF dd m, where h = "\<lambda>l. l\<lparr>list_cards := reorderArray (list_cards src) i j\<rparr>"])
qed

lemma moveCard_cross:
  assumes "lists_defined b" and "distinct (list_ids b)"
    and "find_list s (board_lists b) = Inr (Some src)"
    and "find_list d (board_lists b) = Inr (Some dst)"
    and "s \<noteq> d"
  shows "moveCard now s d i j b =
           Inr (b\<lparr>board_lists :=
                    map (\<lambda>e. if e = Some src
                              then Some (src\<lparr>list_cards := snd (splice_js (list_cards src) i 1 [])\<rparr>)
                              else if e = Some dst
                              then Some (dst\<lparr>list_cards :=
                                           snd (splice_js (list_cards dst) j 0
                                                  [first_of (fst (splice_js (list_cards src) i 1 []))])\<rparr>)
                              else e) (board_lists b),
                  updatedAt := now\<rparr>)"
proof -
  from find_list_found [OF assms(3)]
  have ms: "src \<in> set (defined (board_lists b))" and ks: "list_id src = s" by simp_all
  from find_list_found [OF assms(4)]
  have md: "dst \<in> set (defined (board_lists b))" and kd: "list_id dst = d" by simp_all
  have dd: "distinct (map list_id (defined (board_lists b)))"
    using assms(2) by (simp add: list_ids_def)
  have "moveCard now s d i j b =
          Inr (b\<lparr>board_lists :=
                   map (map_option
                         (\<lambda>l. if list_id l = list_id src
                              then l\<lparr>list_cards := snd (splice_js (list_cards src) i 1 [])\<rparr>
                              else if list_id l = list_id dst \<and> list_id src \<noteq> list_id dst
                              then l\<lparr>list_cards :=
                                       snd (splice_js (list_cards dst) j 0
                                              [first_of (fst (splice_js (list_cards src) i 1 []))])\<rparr>
                              else l)) (board_lists b),
                 updatedAt := now\<rparr>)"
    unfolding moveCard_found [OF assms(1,3,4)] using assms(5) by (simp add: ks kd cong: if_cong)
  then show ?thesis
    by (simp only: map_by_two_ids [OF dd ms md,
          where hx = "\<lambda>l. l\<lparr>list_cards := snd (splice_js (list_cards src) i 1 [])\<rparr>"
            and hy = "\<lambda>l. l\<lparr>list_cards :=
                              snd (splice_js (list_cards dst) j 0
                                     [first_of (fst (splice_js (list_cards src) i 1 []))])\<rparr>"])
qed

subsection \<open>Counting cards\<close>

lemma total_cards_map:
  "total_cards (b\<lparr>board_lists := map (map_option g) (board_lists b), updatedAt := now\<rparr>)
     = sum_list (map (\<lambda>l. length (list_cards (g l))) (defined (board_lists b)))"
  by (simp add: total_cards_def defined_map comp_def)

lemma sum_cards_update:
  assumes "distinct (map list_id ls)" and "x \<in> set ls"
  shows "sum_list (map (\<lambda>l. length (list_cards (if list_id l = list_id x then l\<lparr>list_cards := cs\<rparr> else l))) ls)
           + length (list_cards x)
         = sum_list (map (\<lambda>l. length (list_cards l)) ls) + length cs"
  using assms
proof (induction ls)
  case Nil
  then show ?case by simp
next
  case (Cons a ls)
  show ?case
  proof (cases "a = x")
    case True
    with Cons.prems(1) have "list_id x \<notin> list_id ` set ls" by simp
    then have "\<And>l. l \<in> set ls \<Longrightarrow> list_id l \<noteq> list_id x" by (metis imageI)
    then have "map (\<lambda>l. length (list_cards (if list_id l = list_id x then l\<lparr>list_cards := cs\<rparr> else l))) ls
                 = map (\<lambda>l. length (list_cards l)) ls"
      by (intro map_cong) auto
    then have "sum_list (map (\<lambda>l. length (list_cards (if list_id l = list_id x then l\<lparr>list_cards := cs\<rparr> else l))) ls)
                 = sum_list (map (\<lambda>l. length (list_cards l)) ls)"
      by (rule arg_cong)
    with True show ?thesis by simp
  next
    case False
    with Cons.prems have x: "x \<in> set ls" and d: "distinct (map list_id ls)" by auto
    from Cons.prems(1) have "list_id a \<notin> list_id ` set ls" by simp
    with x have "list_id a \<noteq> list_id x" by (metis imageI)
    with Cons.IH [OF d x] show ?thesis by simp
  qed
qed

lemma total_cards_one:
  assumes "distinct (list_ids b)" and "x \<in> set (defined (board_lists b))"
    and "length cs = length (list_cards x)"
  shows "total_cards (b\<lparr>board_lists :=
                          map (map_option (\<lambda>l. if list_id l = list_id x
                                                then l\<lparr>list_cards := cs\<rparr> else l))
                            (board_lists b),
                        updatedAt := now\<rparr>) = total_cards b"
proof -
  have d: "distinct (map list_id (defined (board_lists b)))"
    using assms(1) by (simp add: list_ids_def)
  show ?thesis
    unfolding total_cards_map
    using sum_cards_update [OF d assms(2), of cs] assms(3)
    by (simp add: total_cards_def)
qed

lemma total_cards_two:
  assumes "distinct (list_ids b)"
    and "x \<in> set (defined (board_lists b))" and "y \<in> set (defined (board_lists b))"
    and "list_id x \<noteq> list_id y"
    and "Suc (length cs) = length (list_cards x)" and "length ds = Suc (length (list_cards y))"
  shows "total_cards (b\<lparr>board_lists :=
                          map (map_option (\<lambda>l. if list_id l = list_id x
                                                then l\<lparr>list_cards := cs\<rparr>
                                                else if list_id l = list_id y \<and> list_id x \<noteq> list_id y
                                                then l\<lparr>list_cards := ds\<rparr> else l))
                            (board_lists b),
                        updatedAt := now\<rparr>) = total_cards b"
proof -
  let ?ls = "defined (board_lists b)"
  let ?gx = "\<lambda>l. if list_id l = list_id x then l\<lparr>list_cards := cs\<rparr> else l"
  let ?gy = "\<lambda>l. if list_id l = list_id y then l\<lparr>list_cards := ds\<rparr> else l"
  have d: "distinct (map list_id ?ls)"
    using assms(1) by (simp add: list_ids_def)
  have ids: "map list_id (map ?gx ?ls) = map list_id ?ls"
    by (induction ?ls) auto
  have d': "distinct (map list_id (map ?gx ?ls))"
    unfolding ids by (rule d)
  have "?gx y \<in> set (map ?gx ?ls)"
    using assms(3) by (rule imageI [of y "set ?ls" ?gx, unfolded set_map [symmetric]])
  then have y': "y \<in> set (map ?gx ?ls)"
    using assms(4) by simp
  have s1: "sum_list (map (\<lambda>l. length (list_cards (?gx l))) ?ls) + length (list_cards x)
              = sum_list (map (\<lambda>l. length (list_cards l)) ?ls) + length cs"
    using d assms(2) by (rule sum_cards_update)
  have s2: "sum_list (map (\<lambda>l. length (list_cards (?gy l))) (map ?gx ?ls)) + length (list_cards y)
              = sum_list (map (\<lambda>l. length (list_cards l)) (map ?gx ?ls)) + length ds"
    using d' y' by (rule sum_cards_update)
  have c: "(\<lambda>l. length (list_cards (if list_id l = list_id x then l\<lparr>list_cards := cs\<rparr>
                    else if list_id l = list_id y \<and> list_id x \<noteq> list_id y
                    then l\<lparr>list_cards := ds\<rparr> else l)))
           = (\<lambda>l. length (list_cards (?gy (?gx l))))"
    using assms(4) by (auto simp: fun_eq_iff)
  have "sum_list (map (\<lambda>l. length (list_cards (?gy (?gx l)))) ?ls)
          = sum_list (map (\<lambda>l. length (list_cards l)) ?ls)"
    using s1 s2 assms(5,6) by (simp add: comp_def)
  then show ?thesis
    unfolding total_cards_map c by (simp add: total_cards_def)
qed

lemma total_cards_at:
  assumes "distinct (list_ids b)" and "x \<in> set (defined (board_lists b))"
    and "length cs = length (list_cards x)"
  shows "total_cards (b\<lparr>board_lists :=
                          map (\<lambda>e. if e = Some x then Some (x\<lparr>list_cards := cs\<rparr>) else e)
                            (board_lists b),
                        updatedAt := now\<rparr>) = total_cards b"
proof -
  have d: "distinct (map list_id (defined (board_lists b)))"
    using assms(1) by (simp add: list_ids_def)
  show ?thesis
    using total_cards_one [OF assms, of now]
    by (simp only: map_by_id [OF d assms(2), where h = "\<lambda>l. l\<lparr>list_cards := cs\<rparr>"])
qed

lemma total_cards_at_two:
  assumes "distinct (list_ids b)"
    and "x \<in> set (defined (board_lists b))" and "y \<in> set (defined (board_lists b))"
    and "list_id x \<noteq> list_id y"
    and "Suc (length cs) = length (list_cards x)" and "length ds = Suc (length (list_cards y))"
  shows "total_cards (b\<lparr>board_lists :=
                          map (\<lambda>e. if e = Some x then Some (x\<lparr>list_cards := cs\<rparr>)
                                    else if e = Some y then Some (y\<lparr>list_cards := ds\<rparr>)
                                    else e) (board_lists b),
                        updatedAt := now\<rparr>) = total_cards b"
proof -
  have d: "distinct (map list_id (defined (board_lists b)))"
    using assms(1) by (simp add: list_ids_def)
  show ?thesis
    using total_cards_two [OF assms, of now]
    by (simp only: map_by_two_ids [OF d assms(2,3), where hx = "\<lambda>l. l\<lparr>list_cards := cs\<rparr>"
                     and hy = "\<lambda>l. l\<lparr>list_cards := ds\<rparr>"])
qed

lemma missing_list_results:
  assumes "lists_defined b" and "listId \<notin> set (list_ids b)"
  shows "updateListTitle now listId title b = Inr (b\<lparr>updatedAt := now\<rparr>)"
    and "deleteList now listId b = Inr (b\<lparr>updatedAt := now\<rparr>)"
    and "deleteAllCards now listId b = Inr (b\<lparr>updatedAt := now\<rparr>)"
    and "addCard now created newId listId title b = Inr (b\<lparr>updatedAt := now\<rparr>)"
    and "updateCardTitle now listId cardId title b = Inr (b\<lparr>updatedAt := now\<rparr>)"
    and "deleteCard now listId cardId b = Inr (b\<lparr>updatedAt := now\<rparr>)"
    and "reorderCards now listId i j b = Inr (b\<lparr>updatedAt := now\<rparr>)"
    and "addComment now created newId listId cardId msg b = Inr (b\<lparr>updatedAt := now\<rparr>)"
    and "moveCard now listId other i j b = Inr b"
    and "moveCard now other listId i j b = Inr b"
proof -
  have d: "list_all (\<lambda>entry. entry \<noteq> None) (board_lists b)"
    and a: "listId \<notin> list_id ` set (defined (board_lists b))"
    using assms by (simp_all add: lists_defined_def list_ids_def)
  note m = at_list_other [OF d a] with_lists_same
  show "updateListTitle now listId title b = Inr (b\<lparr>updatedAt := now\<rparr>)"
    by (simp add: updateListTitle_def m)
  show "deleteList now listId b = Inr (b\<lparr>updatedAt := now\<rparr>)"
    by (simp add: deleteList_def filter_other [OF d a] with_lists_same)
  show "deleteAllCards now listId b = Inr (b\<lparr>updatedAt := now\<rparr>)"
    by (simp add: deleteAllCards_def m)
  show "addCard now created newId listId title b = Inr (b\<lparr>updatedAt := now\<rparr>)"
    by (simp add: addCard_def m)
  show "updateCardTitle now listId cardId title b = Inr (b\<lparr>updatedAt := now\<rparr>)"
    by (simp add: updateCardTitle_def m)
  show "deleteCard now listId cardId b = Inr (b\<lparr>updatedAt := now\<rparr>)"
    by (simp add: deleteCard_def m)
  show "reorderCards now listId i j b = Inr (b\<lparr>updatedAt := now\<rparr>)"
    by (simp add: reorderCards_def m)
  show "addComment now created newId listId cardId msg b = Inr (b\<lparr>updatedAt := now\<rparr>)"
    by (simp add: addComment_def m)
  obtain r where r: "find_list other (board_lists b) = Inr r"
    using find_list_defined [OF d] by blast
  show "moveCard now listId other i j b = Inr b"
    by (simp add: moveCard_def find_list_absent [OF d a] r)
  show "moveCard now other listId i j b = Inr b"
    by (simp add: moveCard_def find_list_absent [OF d a] r split: option.splits)
qed

section \<open>Operations that name a list the board does not have\<close>

text \<open>
  Claim C1, as stated: an operation that names a listId absent from \<open>Board.lists\<close> returns
  a Board equal to its input, \<open>updatedAt\<close> included. It fails: \<open>addCard\<close> with the id
  \<open>missing-id\<close> on the default board returns a board with a new \<open>updatedAt\<close>.
\<close>

theorem missing_list_not_unchanged:
  "addCard ''2026-01-02T00:00:00.000Z'' ''2026-01-02T00:00:00.000Z'' ''card-x'' ''missing-id'' ''title''
     (DEFAULT_BOARD ''2026-01-01T00:00:00.000Z'')
   \<noteq> Inr (DEFAULT_BOARD ''2026-01-01T00:00:00.000Z'')"
  by (simp add: addCard_def DEFAULT_BOARD_def with_lists_def at_list_def)

text \<open>
  Claim C1, amended: on a board without \<open>undefined\<close> list entries, every operation other
  than \<open>moveCard\<close> that names an absent listId returns the input board with \<open>updatedAt\<close> set
  to the time of the call and every other field unchanged; \<open>moveCard\<close> with an absent source
  or destination listId returns the input board itself, \<open>updatedAt\<close> included.
\<close>

theorem missing_list_only_bumps_updatedAt:
  assumes "lists_defined b" and "listId \<notin> set (list_ids b)"
  shows "updateListTitle now listId title b = Inr (b\<lparr>updatedAt := now\<rparr>)
       \<and> deleteList now listId b = Inr (b\<lparr>updatedAt := now\<rparr>)
       \<and> deleteAllCards now listId b = Inr (b\<lparr>updatedAt := now\<rparr>)
       \<and> addCard now created newId listId title b = Inr (b\<lparr>updatedAt := now\<rparr>)
       \<and> updateCardTitle now listId cardId title b = Inr (b\<lparr>updatedAt := now\<rparr>)
       \<and> deleteCard now listId cardId b = Inr (b\<lparr>updatedAt := now\<rparr>)
       \<and> reorderCards now listId i j b = Inr (b\<lparr>updatedAt := now\<rparr>)
       \<and> addComment now created newId listId cardId msg b = Inr (b\<lparr>updatedAt := now\<rparr>)
       \<and> moveCard now listId other i j b = Inr b
       \<and> moveCard now other listId i j b = Inr b"
  using assms by (simp add: missing_list_results)

theorem missing_list_only_bumps_updatedAt_witness:
  "lists_defined (DEFAULT_BOARD ''2026-01-01T00:00:00.000Z'')
   \<and> ''missing-id'' \<notin> set (list_ids (DEFAULT_BOARD ''2026-01-01T00:00:00.000Z''))
   \<and> addCard ''2026-01-02T00:00:00.000Z'' ''2026-01-02T00:00:00.000Z'' ''card-x'' ''missing-id'' ''title''
         (DEFAULT_BOARD ''2026-01-01T00:00:00.000Z'')
       = Inr ((DEFAULT_BOARD ''2026-01-01T00:00:00.000Z'')\<lparr>updatedAt := ''2026-01-02T00:00:00.000Z''\<rparr>)
   \<and> moveCard ''2026-01-02T00:00:00.000Z'' ''missing-id'' ''list-1'' 0 0
         (DEFAULT_BOARD ''2026-01-01T00:00:00.000Z'')
       = Inr (DEFAULT_BOARD ''2026-01-01T00:00:00.000Z'')"
proof -
  have h1: "lists_defined (DEFAULT_BOARD ''2026-01-01T00:00:00.000Z'')"
    by (simp add: lists_defined_def DEFAULT_BOARD_def)
  have h2: "''missing-id'' \<notin> set (list_ids (DEFAULT_BOARD ''2026-01-01T00:00:00.000Z''))"
    by (simp add: list_ids_def DEFAULT_BOARD_def)
  show ?thesis
    using h1 h2
      missing_list_only_bumps_updatedAt [OF h1 h2, where now = "''2026-01-02T00:00:00.000Z''"
        and newId = "''card-x''" and title = "''title''" and i = 0 and j = 0
        and other = "''list-1''"]
    by simp
qed

section \<open>Moving a card between lists\<close>

text \<open>
  Claim C3: on a board whose list ids are distinct, with both lists present, a source index
  inside the source list and a destination index inside the destination list (its end
  included), \<open>moveCard\<close> succeeds and keeps the total number of cards; for two different
  lists the card at the source index leaves the source list and is inserted once, at the
  destination index, into the destination list, every other list staying as it was.
  \<open>reorderCards\<close> keeps the total number of cards as well, and \<open>moveItemBetweenArrays\<close>
  computes the same pair of sequences. The scenario of the claim is the witness.
\<close>

theorem moveCard_transfers_one_card:
  assumes "lists_defined b" and "distinct (list_ids b)"
    and "find_list sourceListId (board_lists b) = Inr (Some src)"
    and "find_list destListId (board_lists b) = Inr (Some dst)"
    and "0 \<le> i" and "nat i < length (list_cards src)"
    and "0 \<le> j" and "nat j \<le> length (list_cards dst)"
  shows "(\<exists>b'. moveCard now sourceListId destListId i j b = Inr b'
              \<and> total_cards b' = total_cards b
              \<and> (sourceListId \<noteq> destListId \<longrightarrow>
                   b' = b\<lparr>board_lists :=
                            map (\<lambda>e. if e = Some src
                                      then Some (src\<lparr>list_cards :=
                                                   take (nat i) (list_cards src)
                                                     @ drop (Suc (nat i)) (list_cards src)\<rparr>)
                                      else if e = Some dst
                                      then Some (dst\<lparr>list_cards :=
                                                   take (nat j) (list_cards dst)
                                                     @ [list_cards src ! nat i]
                                                     @ drop (nat j) (list_cards dst)\<rparr>)
                                      else e) (board_lists b),
                          updatedAt := now\<rparr>))
         \<and> (\<exists>b''. reorderCards now sourceListId i k b = Inr b''
                  \<and> total_cards b'' = total_cards b)
         \<and> moveItemBetweenArrays (list_cards src) (list_cards dst) i j
             = (take (nat i) (list_cards src) @ drop (Suc (nat i)) (list_cards src),
                take (nat j) (list_cards dst) @ [list_cards src ! nat i]
                  @ drop (nat j) (list_cards dst))"
proof -
  let ?cs = "list_cards src" and ?cd = "list_cards dst"
  from find_list_found [OF assms(3)]
  have ms: "src \<in> set (defined (board_lists b))" and ks: "list_id src = sourceListId"
    by simp_all
  from find_list_found [OF assms(4)]
  have md: "dst \<in> set (defined (board_lists b))" and kd: "list_id dst = destListId"
    by simp_all
  have dd: "distinct (map list_id (defined (board_lists b)))"
    using assms(2) by (simp add: list_ids_def)
  have rem: "splice_js ?cs i 1 [] = ([?cs ! nat i], take (nat i) ?cs @ drop (Suc (nat i)) ?cs)"
    using assms(5,6) by (rule splice_remove_valid)
  have ins: "snd (splice_js ?cd j 0 [v]) = take (nat j) ?cd @ [v] @ drop (nat j) ?cd" for v
    by (simp only: splice_insert relative_start_valid [OF assms(7,8)])
  have items: "moveItemBetweenArrays ?cs ?cd i j
                 = (take (nat i) ?cs @ drop (Suc (nat i)) ?cs,
                    take (nat j) ?cd @ [?cs ! nat i] @ drop (nat j) ?cd)"
    by (simp add: moveItemBetweenArrays_def rem ins)
  have reorder: "\<exists>b''. reorderCards now sourceListId i k b = Inr b'' \<and> total_cards b'' = total_cards b"
    unfolding reorderCards_at [OF assms(1-3)]
    using total_cards_at [OF assms(2) ms, of "reorderArray ?cs i k" now]
      reorderArray_length_any [OF assms(5,6), of k]
    by simp
  have move: "\<exists>b'. moveCard now sourceListId destListId i j b = Inr b'
              \<and> total_cards b' = total_cards b
              \<and> (sourceListId \<noteq> destListId \<longrightarrow>
                   b' = b\<lparr>board_lists :=
                            map (\<lambda>e. if e = Some src
                                      then Some (src\<lparr>list_cards :=
                                                   take (nat i) ?cs @ drop (Suc (nat i)) ?cs\<rparr>)
                                      else if e = Some dst
                                      then Some (dst\<lparr>list_cards :=
                                                   take (nat j) ?cd @ [?cs ! nat i]
                                                     @ drop (nat j) ?cd\<rparr>)
                                      else e) (board_lists b),
                          updatedAt := now\<rparr>)"
  proof (cases "sourceListId = destListId")
    case True
    with assms(3,4) have e: "dst = src" by simp
    have "moveCard now sourceListId destListId i j b =
            Inr (b\<lparr>board_lists :=
                     map (\<lambda>e. if e = Some src
                               then Some (src\<lparr>list_cards := reorderArray ?cs i j\<rparr>)
                               else e) (board_lists b),
                   updatedAt := now\<rparr>)"
      unfolding True [symmetric] using assms(1-3) by (rule moveCard_same)
    moreover have "total_cards (b\<lparr>board_lists :=
                     map (\<lambda>e. if e = Some src
                               then Some (src\<lparr>list_cards := reorderArray ?cs i j\<rparr>)
                               else e) (board_lists b),
                   updatedAt := now\<rparr>) = total_cards b"
      using assms(2) ms reorderArray_length_any [OF assms(5,6)] by (rule total_cards_at)
    ultimately show ?thesis
      using True by simp
  next
    case False
    have l1: "Suc (length (take (nat i) ?cs @ drop (Suc (nat i)) ?cs)) = length ?cs"
      using assms(6) by simp
    have l2: "length (take (nat j) ?cd @ [?cs ! nat i] @ drop (nat j) ?cd) = Suc (length ?cd)"
      using assms(8) by simp
    have "moveCard now sourceListId destListId i j b =
            Inr (b\<lparr>board_lists :=
                     map (\<lambda>e. if e = Some src
                               then Some (src\<lparr>list_cards :=
                                            take (nat i) ?cs @ drop (Suc (nat i)) ?cs\<rparr>)
                               else if e = Some dst
                               then Some (dst\<lparr>list_cards :=
                                            take (nat j) ?cd @ [?cs ! nat i]
                                              @ drop (nat j) ?cd\<rparr>)
                               else e) (board_lists b),
                   updatedAt := now\<rparr>)"
      unfolding moveCard_cross [OF assms(1-4) False] rem ins by simp
    moreover have "total_cards (b\<lparr>board_lists :=
                     map (\<lambda>e. if e = Some src
                               then Some (src\<lparr>list_cards :=
                                            take (nat i) ?cs @ drop (Suc (nat i)) ?cs\<rparr>)
                               else if e = Some dst
                               then Some (dst\<lparr>list_cards :=
                                            take (nat j) ?cd @ [?cs ! nat i]
                                              @ drop (nat j) ?cd\<rparr>)
                               else e) (board_lists b),
                   updatedAt := now\<rparr>) = total_cards b"
      using assms(2) ms md _ l1 l2
    proof (rule total_cards_at_two)
      show "list_id src \<noteq> list_id dst" using False by (simp add: ks kd)
    qed
    ultimately show ?thesis by simp
  qed
  from move reorder items show ?thesis by (intro conjI)
qed

theorem moveCard_scenario:
  "lists_defined scenario_board \<and> distinct (list_ids scenario_board)
   \<and> moveCard ''2026-01-02T00:00:00.000Z'' ''todo'' ''done'' 0 0 scenario_board
       = Inr (scenario_board
               \<lparr>board_lists :=
                  [Some \<lparr>list_id = ''todo'', list_title = ''Todo'',
                         list_cards =
                           [Some \<lparr>card_id = ''C2'', card_title = ''second'',
                                  card_description = None, card_comments = [],
                                  card_createdAt = ''2026-01-01T00:00:00.000Z''\<rparr>]\<rparr>,
                   Some \<lparr>list_id = ''done'', list_title = ''Done'',
                         list_cards =
                           [Some \<lparr>card_id = ''C1'', card_title = ''first'',
                                  card_description = None, card_comments = [],
                                  card_createdAt = ''2026-01-01T00:00:00.000Z''\<rparr>]\<rparr>],
                updatedAt := ''2026-01-02T00:00:00.000Z''\<rparr>)"
proof -
  let ?todo = "\<lparr>list_id = ''todo'', list_title = ''Todo'',
                list_cards =
                  [Some \<lparr>card_id = ''C1'', card_title = ''first'', card_description = None,
                         card_comments = [], card_createdAt = ''2026-01-01T00:00:00.000Z''\<rparr>,
                   Some \<lparr>card_id = ''C2'', card_title = ''second'', card_description = None,
                         card_comments = [], card_createdAt = ''2026-01-01T00:00:00.000Z''\<rparr>]\<rparr>"
  let ?done = "\<lparr>list_id = ''done'', list_title = ''Done'', list_cards = []\<rparr>"
  have h1: "lists_defined scenario_board"
    by (simp add: lists_defined_def scenario_board_def)
  have h2: "distinct (list_ids scenario_board)"
    by (simp add: list_ids_def scenario_board_def)
  have h3: "find_list ''todo'' (board_lists scenario_board) = Inr (Some ?todo)"
    by (simp add: scenario_board_def)
  have h4: "find_list ''done'' (board_lists scenario_board) = Inr (Some ?done)"
    by (simp add: scenario_board_def)
  have h5: "(0::int) \<le> 0" by simp
  have h6: "nat 0 < length (list_cards ?todo)" by simp
  have h8: "nat 0 \<le> length (list_cards ?done)" by simp
  from moveCard_transfers_one_card [OF h1 h2 h3 h4 h5 h6 h5 h8, of "''2026-01-02T00:00:00.000Z''" 0]
  obtain b' where m: "moveCard ''2026-01-02T00:00:00.000Z'' ''todo'' ''done'' 0 0 scenario_board = Inr b'"
    and e: "''todo'' \<noteq> ''done'' \<longrightarrow>
              b' = scenario_board
                     \<lparr>board_lists :=
                        map (\<lambda>e. if e = Some ?todo
                                  then Some (?todo\<lparr>list_cards :=
                                               take (nat 0) (list_cards ?todo)
                                                 @ drop (Suc (nat 0)) (list_cards ?todo)\<rparr>)
                                  else if e = Some ?done
                                  then Some (?done\<lparr>list_cards :=
                                               take (nat 0) (list_cards ?done)
                                                 @ [list_cards ?todo ! nat 0]
                                                 @ drop (nat 0) (list_cards ?done)\<rparr>)
                                  else e) (board_lists scenario_board),
                      updatedAt := ''2026-01-02T00:00:00.000Z''\<rparr>"
    by blast
  from e have "b' = scenario_board
                     \<lparr>board_lists :=
                        map (\<lambda>e. if e = Some ?todo
                                  then Some (?todo\<lparr>list_cards :=
                                               take (nat 0) (list_cards ?todo)
                                                 @ drop (Suc (nat 0)) (list_cards ?todo)\<rparr>)
                                  else if e = Some ?done
                                  then Some (?done\<lparr>list_cards :=
                                               take (nat 0) (list_cards ?done)
                                                 @ [list_cards ?todo ! nat 0]
                                                 @ drop (nat 0) (list_cards ?done)\<rparr>)
                                  else e) (board_lists scenario_board),
                      updatedAt := ''2026-01-02T00:00:00.000Z''\<rparr>"
    by simp
  then have "b' = scenario_board
               \<lparr>board_lists :=
                  [Some \<lparr>list_id = ''todo'', list_title = ''Todo'',
                         list_cards =
                           [Some \<lparr>card_id = ''C2'', card_title = ''second'',
                                  card_description = None, card_comments = [],
                                  card_createdAt = ''2026-01-01T00:00:00.000Z''\<rparr>]\<rparr>,
                   Some \<lparr>list_id = ''done'', list_title = ''Done'',
                         list_cards =
                           [Some \<lparr>card_id = ''C1'', card_title = ''first'',
                                  card_description = None, card_comments = [],
                                  card_createdAt = ''2026-01-01T00:00:00.000Z''\<rparr>]\<rparr>],
                updatedAt := ''2026-01-02T00:00:00.000Z''\<rparr>"
    by (simp add: scenario_board_def)
  with m h1 h2 show ?thesis by simp
qed

section \<open>Reordering the cards of one list\<close>

text \<open>
  Claim C4: on a board whose list ids are distinct and that holds the named list, with
  both indices inside that list's cards, \<open>reorderCards\<close> replaces the cards of that list
  only, by a sequence with the same multiset of cards in which the card that was at
  \<open>fromIndex\<close> is at \<open>toIndex\<close> and the other cards keep their relative order; with equal
  indices the board is unchanged except for \<open>updatedAt\<close>.
\<close>

theorem reorderCards_relocates_one_card:
  assumes "lists_defined b" and "distinct (list_ids b)"
    and "find_list listId (board_lists b) = Inr (Some l)"
    and "0 \<le> i" and "nat i < length (list_cards l)"
    and "0 \<le> j" and "nat j < length (list_cards l)"
  shows "(\<exists>cs'. reorderCards now listId i j b =
                   Inr (b\<lparr>board_lists :=
                            map (\<lambda>e. if e = Some l then Some (l\<lparr>list_cards := cs'\<rparr>) else e)
                              (board_lists b),
                          updatedAt := now\<rparr>)
              \<and> mset cs' = mset (list_cards l)
              \<and> cs' ! nat j = list_cards l ! nat i
              \<and> take (nat j) cs' @ drop (Suc (nat j)) cs'
                   = take (nat i) (list_cards l) @ drop (Suc (nat i)) (list_cards l))
         \<and> reorderCards now listId i i b = Inr (b\<lparr>updatedAt := now\<rparr>)"
proof (intro conjI exI)
  show "reorderCards now listId i j b =
          Inr (b\<lparr>board_lists :=
                   map (\<lambda>e. if e = Some l
                             then Some (l\<lparr>list_cards := reorderArray (list_cards l) i j\<rparr>)
                             else e) (board_lists b),
                 updatedAt := now\<rparr>)"
    using assms(1-3) by (rule reorderCards_at)
  show "mset (reorderArray (list_cards l) i j) = mset (list_cards l)"
    using assms(4-7) by (rule reorderArray_mset)
  show "reorderArray (list_cards l) i j ! nat j = list_cards l ! nat i"
    using assms(4-7) by (rule reorderArray_nth)
  show "take (nat j) (reorderArray (list_cards l) i j)
          @ drop (Suc (nat j)) (reorderArray (list_cards l) i j)
        = take (nat i) (list_cards l) @ drop (Suc (nat i)) (list_cards l)"
    using assms(4-7) by (rule reorderArray_others)
  have "map (\<lambda>e. if e = Some l then Some (l\<lparr>list_cards := list_cards l\<rparr>) else e) (board_lists b)
          = board_lists b"
    by (rule map_id_on) simp
  then show "reorderCards now listId i i b = Inr (b\<lparr>updatedAt := now\<rparr>)"
    unfolding reorderCards_at [OF assms(1-3)] reorderArray_same [OF assms(4,5)]
    by simp
qed

theorem reorderCards_default_board:
  "lists_defined (DEFAULT_BOARD ''2026-01-01T00:00:00.000Z'')
   \<and> distinct (list_ids (DEFAULT_BOARD ''2026-01-01T00:00:00.000Z''))
   \<and> reorderCards ''2026-01-02T00:00:00.000Z'' ''list-1'' 1 1 (DEFAULT_BOARD ''2026-01-01T00:00:00.000Z'')
       = Inr ((DEFAULT_BOARD ''2026-01-01T00:00:00.000Z'')\<lparr>updatedAt := ''2026-01-02T00:00:00.000Z''\<rparr>)
   \<and> reorderCards ''2026-01-02T00:00:00.000Z'' ''list-1'' 0 1 (DEFAULT_BOARD ''2026-01-01T00:00:00.000Z'')
       = Inr ((DEFAULT_BOARD ''2026-01-01T00:00:00.000Z'')
               \<lparr>board_lists :=
                  [Some \<lparr>list_id = ''list-1'', list_title = ''Todo'',
                         list_cards =
                           [Some \<lparr>card_id = ''card-2'', card_title = ''Review Drag & Drop'',
                                  card_description = None, card_comments = [],
                                  card_createdAt = ''2026-01-01T00:00:00.000Z''\<rparr>,
                            Some \<lparr>card_id = ''card-1'',
                                  card_title = ''Create interview Kanban'',
                                  card_description = None, card_comments = [],
                                  card_createdAt = ''2026-01-01T00:00:00.000Z''\<rparr>]\<rparr>,
                   Some \<lparr>list_id = ''list-2'', list_title = ''In Progress'',
                         list_cards =
                           [Some \<lparr>card_id = ''card-3'',
                                  card_title = ''Set up Next.js project'',
                                  card_description = None, card_comments = [],
                                  card_createdAt = ''2026-01-01T00:00:00.000Z''\<rparr>]\<rparr>,
                   Some \<lparr>list_id = ''list-3'', list_title = ''Done'', list_cards = []\<rparr>],
                updatedAt := ''2026-01-02T00:00:00.000Z''\<rparr>)"
proof -
  let ?l = "\<lparr>list_id = ''list-1'', list_title = ''Todo'',
             list_cards =
               [Some \<lparr>card_id = ''card-1'', card_title = ''Create interview Kanban'',
                      card_description = None, card_comments = [],
                      card_createdAt = ''2026-01-01T00:00:00.000Z''\<rparr>,
                Some \<lparr>card_id = ''card-2'', card_title = ''Review Drag & Drop'',
                      card_description = None, card_comments = [],
                      card_createdAt = ''2026-01-01T00:00:00.000Z''\<rparr>]\<rparr>"
  have h1: "lists_defined (DEFAULT_BOARD ''2026-01-01T00:00:00.000Z'')"
    by (simp add: lists_defined_def DEFAULT_BOARD_def)
  have h2: "distinct (list_ids (DEFAULT_BOARD ''2026-01-01T00:00:00.000Z''))"
    by (simp add: list_ids_def DEFAULT_BOARD_def)
  have h3: "find_list ''list-1'' (board_lists (DEFAULT_BOARD ''2026-01-01T00:00:00.000Z''))
              = Inr (Some ?l)"
    by (simp add: DEFAULT_BOARD_def)
  have h4: "(0::int) \<le> 1" by simp
  have h5: "nat 1 < length (list_cards ?l)" by simp
  have "reorderCards ''2026-01-02T00:00:00.000Z'' ''list-1'' 0 1 (DEFAULT_BOARD ''2026-01-01T00:00:00.000Z'')
       = Inr ((DEFAULT_BOARD ''2026-01-01T00:00:00.000Z'')
               \<lparr>board_lists :=
                  [Some \<lparr>list_id = ''list-1'', list_title = ''Todo'',
                         list_cards =
                           [Some \<lparr>card_id = ''card-2'', card_title = ''Review Drag & Drop'',
                                  card_description = None, card_comments = [],
                                  card_createdAt = ''2026-01-01T00:00:00.000Z''\<rparr>,
                            Some \<lparr>card_id = ''card-1'',
                                  card_title = ''Create interview Kanban'',
                                  card_description = None, card_comments = [],
                                  card_createdAt = ''2026-01-01T00:00:00.000Z''\<rparr>]\<rparr>,
                   Some \<lparr>list_id = ''list-2'', list_title = ''In Progress'',
                         list_cards =
                           [Some \<lparr>card_id = ''card-3'',
                                  card_title = ''Set up Next.js project'',
                                  card_description = None, card_comments = [],
                                  card_createdAt = ''2026-01-01T00:00:00.000Z''\<rparr>]\<rparr>,
                   Some \<lparr>list_id = ''list-3'', list_title = ''Done'', list_cards = []\<rparr>],
                updatedAt := ''2026-01-02T00:00:00.000Z''\<rparr>)"
    by (simp add: reorderCards_def DEFAULT_BOARD_def with_lists_def at_list_def reorderArray_def
          splice_js_def relative_start_def)
  then show ?thesis
    using h1 h2
      reorderCards_relocates_one_card [OF h1 h2 h3 h4 h5 h4 h5, of "''2026-01-02T00:00:00.000Z''"]
    by simp
qed

section \<open>Moving a card inside one list\<close>

text \<open>
  Claim C5: on a board whose list ids are distinct, \<open>moveCard\<close> with the same id as source
  and destination and \<open>reorderCards\<close> with that id and the same indices give the same
  result up to \<open>updatedAt\<close>: the same board when both succeed, the same error when the
  board has an \<open>undefined\<close> list entry.
\<close>

theorem moveCard_same_list_is_reorderCards:
  assumes "distinct (list_ids b)"
  shows "strip_updatedAt (moveCard now listId listId i j b)
           = strip_updatedAt (reorderCards now' listId i j b)"
proof (cases "lists_defined b")
  case False
  then have u: "\<not> list_all (\<lambda>entry. entry \<noteq> None) (board_lists b)"
    by (simp add: lists_defined_def)
  have r: "reorderCards now' listId i j b = Inl TypeError"
    by (simp add: reorderCards_def with_lists_def map_js_undefined [OF u] at_list_def)
  have "moveCard now listId listId i j b = Inl TypeError"
  proof (cases "find_list listId (board_lists b)")
    case (Inl e)
    then show ?thesis by (simp add: moveCard_def error_unique [of e])
  next
    case (Inr found)
    show ?thesis
    proof (cases found)
      case None
      with Inr u find_list_none show ?thesis by blast
    next
      case (Some src)
      with Inr show ?thesis
        by (simp add: moveCard_def with_lists_def map_js_undefined [OF u] moveCard_cb_def
              split_beta Let_def)
    qed
  qed
  with r show ?thesis by simp
next
  case True
  then have d: "list_all (\<lambda>entry. entry \<noteq> None) (board_lists b)"
    by (simp add: lists_defined_def)
  show ?thesis
  proof (cases "listId \<in> set (list_ids b)")
    case False
    with True show ?thesis
      by (simp add: missing_list_results strip_updatedAt_def)
  next
    case present: True
    then obtain src where f: "find_list listId (board_lists b) = Inr (Some src)"
      using find_list_present [OF d] by (auto simp: list_ids_def)
    from find_list_found [OF f]
    have m: "src \<in> set (defined (board_lists b))" and k: "list_id src = listId" by simp_all
    have dd: "distinct (map list_id (defined (board_lists b)))"
      using assms by (simp add: list_ids_def)
    have "moveCard now listId listId i j b =
            Inr (b\<lparr>board_lists :=
                     map (\<lambda>e. if e = Some src
                               then Some (src\<lparr>list_cards := reorderArray (list_cards src) i j\<rparr>)
                               else e) (board_lists b),
                   updatedAt := now\<rparr>)"
    proof -
      have "moveCard now listId listId i j b =
              Inr (b\<lparr>board_lists :=
                       map (map_option
                             (\<lambda>l. if list_id l = list_id src
                                  then l\<lparr>list_cards := reorderArray (list_cards src) i j\<rparr>
                                  else l)) (board_lists b),
                     updatedAt := now\<rparr>)"
        unfolding moveCard_found [OF True f f] by (simp add: k cong: if_cong)
      then show ?thesis
        by (simp only: map_by_id [OF dd m, where h = "\<lambda>l. l\<lparr>list_cards := reorderArray (list_cards src) i j\<rparr>"])
    qed
    then show ?thesis
      by (simp add: reorderCards_at [OF True assms f] strip_updatedAt_def)
  qed
qed

theorem moveCard_same_list_default_board:
  "distinct (list_ids (DEFAULT_BOARD ''2026-01-01T00:00:00.000Z''))
   \<and> strip_updatedAt (moveCard ''2026-01-02T00:00:00.000Z'' ''list-1'' ''list-1'' 0 1
                        (DEFAULT_BOARD ''2026-01-01T00:00:00.000Z''))
       = strip_updatedAt (reorderCards ''2026-01-03T00:00:00.000Z'' ''list-1'' 0 1
                            (DEFAULT_BOARD ''2026-01-01T00:00:00.000Z''))"
proof -
  have h: "distinct (list_ids (DEFAULT_BOARD ''2026-01-01T00:00:00.000Z''))"
    by (simp add: list_ids_def DEFAULT_BOARD_def)
  show ?thesis
    using h moveCard_same_list_is_reorderCards [OF h] by simp
qed

section \<open>Indices outside the sequence\<close>

lemma insert_at_end: "take (length r) r @ [x] @ drop (length r) r = r @ [x]"
  by simp

lemma reorderArray_to_end:
  assumes "0 \<le> i" and "nat i < length xs" and "int (length xs) \<le> j"
  shows "reorderArray xs i j = take (nat i) xs @ drop (Suc (nat i)) xs @ [xs ! nat i]"
proof -
  let ?r = "take (nat i) xs @ drop (Suc (nat i)) xs"
  have len: "length ?r = length xs - 1"
    using assms(2) by simp
  have k: "relative_start j (length ?r) = length ?r"
    unfolding len using assms(3) by (simp add: relative_start_def)
  have "reorderArray xs i j = snd (splice_js ?r j 0 [xs ! nat i])"
    by (simp add: reorderArray_def splice_remove_valid [OF assms(1,2)])
  also have "\<dots> = take (length ?r) ?r @ [xs ! nat i] @ drop (length ?r) ?r"
    by (simp only: splice_insert k)
  also have "\<dots> = ?r @ [xs ! nat i]"
    by (rule insert_at_end)
  finally show ?thesis by simp
qed

text \<open>
  Claim C2, as stated: \<open>reorderLists\<close>, \<open>reorderCards\<close> and \<open>moveCard\<close> with an index that is
  not a position of the sequence leave the sequence unchanged. It fails: on the scenario
  board, which has two lists, \<open>reorderLists(5, 0)\<close> puts an \<open>undefined\<close> entry in front of
  the two lists.
\<close>

theorem reorderLists_inserts_undefined:
  "board_lists (reorderLists ''2026-01-02T00:00:00.000Z'' 5 0 scenario_board)
     = None # board_lists scenario_board
   \<and> board_lists (reorderLists ''2026-01-02T00:00:00.000Z'' 5 0 scenario_board)
       \<noteq> board_lists scenario_board"
  by (simp add: reorderLists_def reorderArray_def splice_js_def relative_start_def
        scenario_board_def)

lemma reorderCards_undefined:
  assumes "\<not> lists_defined b"
  shows "reorderCards now listId i j b = Inl TypeError"
proof -
  have u: "\<not> list_all (\<lambda>entry. entry \<noteq> None) (board_lists b)"
    using assms by (simp add: lists_defined_def)
  show ?thesis
    by (simp add: reorderCards_def with_lists_def map_js_undefined [OF u] at_list_def)
qed

lemma moveCard_undefined:
  assumes "\<not> lists_defined b"
  shows "moveCard now s d i j b = Inl TypeError"
proof -
  have u: "\<not> list_all (\<lambda>entry. entry \<noteq> None) (board_lists b)"
    using assms by (simp add: lists_defined_def)
  show ?thesis
  proof (cases "find_list s (board_lists b)")
    case (Inl e)
    then show ?thesis by (simp add: moveCard_def error_unique [of e])
  next
    case srcr: (Inr sf)
    show ?thesis
    proof (cases "find_list d (board_lists b)")
      case (Inl e)
      with srcr show ?thesis by (simp add: moveCard_def error_unique [of e])
    next
      case dstr: (Inr df)
      from srcr u find_list_none obtain src where sf: "sf = Some src"
        by (cases sf) blast+
      from dstr u find_list_none obtain dst where df: "df = Some dst"
        by (cases df) blast+
      show ?thesis
        using srcr dstr
        by (simp add: moveCard_def sf df with_lists_def map_js_undefined [OF u] moveCard_cb_def
              split_beta Let_def)
    qed
  qed
qed

text \<open>
  Claim C2, amended: the three operations do not check their indices, they hand them to
  \<open>Array.prototype.splice\<close>. On every board \<open>reorderLists\<close> replaces the lists by
  \<open>reorderArray\<close> of them. On a board without \<open>undefined\<close> list entries \<open>reorderCards\<close>
  replaces the cards of each list that has the given id by \<open>reorderArray\<close> of them; on a
  board with an \<open>undefined\<close> list entry \<open>reorderCards\<close> and \<open>moveCard\<close> throw a TypeError.
  On a board without \<open>undefined\<close> list entries and with distinct list ids, \<open>moveCard\<close> with
  the id of a list of the board as source and destination returns what \<open>reorderCards\<close>
  returns. \<open>reorderArray\<close> with a source index at or beyond the end removes nothing and
  inserts one \<open>undefined\<close> entry at the destination position (clamped to the sequence),
  so the sequence grows by one; with a source index inside the sequence and a
  destination index at or beyond the end it moves the entry to the last position. On a
  board without \<open>undefined\<close> list entries and with distinct list ids, \<open>moveCard\<close> between
  two different lists of the board, with a source index at or beyond the end of the source
  cards, leaves the source list as it is and inserts one \<open>undefined\<close> entry at the clamped
  destination position of the destination cards; with a source index inside the source
  cards and a destination index at or beyond the end of the destination cards it removes
  the card from the source list and appends it to the destination list.
\<close>

theorem indices_are_not_validated:
  "board_lists (reorderLists now i j b) = reorderArray (board_lists b) i j
   \<and> (lists_defined b \<longrightarrow>
        reorderCards now listId i j b
          = Inr (b\<lparr>board_lists :=
                   map (map_option
                         (\<lambda>l. if list_id l = listId
                              then l\<lparr>list_cards := reorderArray (list_cards l) i j\<rparr>
                              else l)) (board_lists b),
                 updatedAt := now\<rparr>))
   \<and> (\<not> lists_defined b \<longrightarrow>
        reorderCards now listId i j b = Inl TypeError
        \<and> moveCard now listId destListId i j b = Inl TypeError)
   \<and> (lists_defined b \<and> distinct (list_ids b) \<and> listId \<in> set (list_ids b) \<longrightarrow>
        moveCard now listId listId i j b = reorderCards now listId i j b)
   \<and> (int (length xs) \<le> i \<longrightarrow>
        reorderArray xs i j
          = take (relative_start j (length xs)) xs @ [None]
              @ drop (relative_start j (length xs)) xs)
   \<and> (0 \<le> i \<and> nat i < length xs \<and> int (length xs) \<le> j \<longrightarrow>
        reorderArray xs i j = take (nat i) xs @ drop (Suc (nat i)) xs @ [xs ! nat i])
   \<and> (lists_defined b \<and> distinct (list_ids b)
        \<and> find_list listId (board_lists b) = Inr (Some l)
        \<and> find_list destListId (board_lists b) = Inr (Some dst)
        \<and> listId \<noteq> destListId \<longrightarrow>
        (int (length (list_cards l)) \<le> i \<longrightarrow>
           moveCard now listId destListId i j b
             = Inr (b\<lparr>board_lists :=
                      map (\<lambda>e. if e = Some dst
                                then Some (dst\<lparr>list_cards :=
                                             take (relative_start j (length (list_cards dst)))
                                               (list_cards dst)
                                             @ [None]
                                             @ drop (relative_start j (length (list_cards dst)))
                                                 (list_cards dst)\<rparr>)
                                else e) (board_lists b),
                    updatedAt := now\<rparr>))
        \<and> (0 \<le> i \<and> nat i < length (list_cards l) \<and> int (length (list_cards dst)) \<le> j \<longrightarrow>
             moveCard now listId destListId i j b
               = Inr (b\<lparr>board_lists :=
                        map (\<lambda>e. if e = Some l
                                  then Some (l\<lparr>list_cards :=
                                               take (nat i) (list_cards l)
                                                 @ drop (Suc (nat i)) (list_cards l)\<rparr>)
                                  else if e = Some dst
                                  then Some (dst\<lparr>list_cards :=
                                               list_cards dst @ [list_cards l ! nat i]\<rparr>)
                                  else e) (board_lists b),
                      updatedAt := now\<rparr>)))"
proof -
  have 1: "board_lists (reorderLists now i j b) = reorderArray (board_lists b) i j"
    by (simp add: reorderLists_def)
  have 2: "reorderCards now listId i j b
             = Inr (b\<lparr>board_lists :=
                      map (map_option
                            (\<lambda>l. if list_id l = listId
                                 then l\<lparr>list_cards := reorderArray (list_cards l) i j\<rparr>
                                 else l)) (board_lists b),
                    updatedAt := now\<rparr>)"
    if "lists_defined b"
    using that by (rule reorderCards_defined)
  have 3: "reorderCards now listId i j b = Inl TypeError
           \<and> moveCard now listId destListId i j b = Inl TypeError"
    if "\<not> lists_defined b"
    using that by (simp add: reorderCards_undefined moveCard_undefined)
  have 4: "moveCard now listId listId i j b = reorderCards now listId i j b"
    if h: "lists_defined b \<and> distinct (list_ids b) \<and> listId \<in> set (list_ids b)"
  proof -
    from h have d: "list_all (\<lambda>entry. entry \<noteq> None) (board_lists b)"
      and m: "listId \<in> list_id ` set (defined (board_lists b))"
      by (simp_all add: lists_defined_def list_ids_def)
    from find_list_present [OF d m]
    obtain src where f: "find_list listId (board_lists b) = Inr (Some src)" by blast
    from h have a: "lists_defined b" and u: "distinct (list_ids b)" by simp_all
    show ?thesis
      unfolding reorderCards_at [OF a u f] using a u f by (rule moveCard_same)
  qed
  have 5: "reorderArray xs i j
             = take (relative_start j (length xs)) xs @ [None]
                 @ drop (relative_start j (length xs)) xs"
    if "int (length xs) \<le> i"
    using that by (rule reorderArray_beyond)
  have 8: "reorderArray xs i j = take (nat i) xs @ drop (Suc (nat i)) xs @ [xs ! nat i]"
    if "0 \<le> i \<and> nat i < length xs \<and> int (length xs) \<le> j"
    using that by (simp add: reorderArray_to_end)
  have 9: "(int (length (list_cards l)) \<le> i \<longrightarrow>
           moveCard now listId destListId i j b
             = Inr (b\<lparr>board_lists :=
                      map (\<lambda>e. if e = Some dst
                                then Some (dst\<lparr>list_cards :=
                                             take (relative_start j (length (list_cards dst)))
                                               (list_cards dst)
                                             @ [None]
                                             @ drop (relative_start j (length (list_cards dst)))
                                                 (list_cards dst)\<rparr>)
                                else e) (board_lists b),
                    updatedAt := now\<rparr>))
        \<and> (0 \<le> i \<and> nat i < length (list_cards l) \<and> int (length (list_cards dst)) \<le> j \<longrightarrow>
             moveCard now listId destListId i j b
               = Inr (b\<lparr>board_lists :=
                        map (\<lambda>e. if e = Some l
                                  then Some (l\<lparr>list_cards :=
                                               take (nat i) (list_cards l)
                                                 @ drop (Suc (nat i)) (list_cards l)\<rparr>)
                                  else if e = Some dst
                                  then Some (dst\<lparr>list_cards :=
                                               list_cards dst @ [list_cards l ! nat i]\<rparr>)
                                  else e) (board_lists b),
                      updatedAt := now\<rparr>))"
    if hyp: "lists_defined b \<and> distinct (list_ids b)
        \<and> find_list listId (board_lists b) = Inr (Some l)
        \<and> find_list destListId (board_lists b) = Inr (Some dst)
        \<and> listId \<noteq> destListId"
  proof -
    let ?cs = "list_cards l" and ?cd = "list_cards dst"
    let ?k = "relative_start j (length ?cd)"
    from hyp have c: "lists_defined b" "distinct (list_ids b)"
      "find_list listId (board_lists b) = Inr (Some l)"
      "find_list destListId (board_lists b) = Inr (Some dst)"
      "listId \<noteq> destListId"
      by simp_all
  have 6: "moveCard now listId destListId i j b
             = Inr (b\<lparr>board_lists :=
                      map (\<lambda>e. if e = Some dst
                                then Some (dst\<lparr>list_cards := take ?k ?cd @ [None] @ drop ?k ?cd\<rparr>)
                                else e) (board_lists b),
                    updatedAt := now\<rparr>)"
    if "int (length ?cs) \<le> i"
  proof -
    have "l \<noteq> dst"
      using find_list_found [OF c(3)] find_list_found [OF c(4)] c(5) by auto
    then have "map (\<lambda>e. if e = Some l then Some (l\<lparr>list_cards := ?cs\<rparr>)
                    else if e = Some dst
                    then Some (dst\<lparr>list_cards := take ?k ?cd @ [None] @ drop ?k ?cd\<rparr>)
                    else e) (board_lists b)
          = map (\<lambda>e. if e = Some dst
                      then Some (dst\<lparr>list_cards := take ?k ?cd @ [None] @ drop ?k ?cd\<rparr>)
                      else e) (board_lists b)"
      by (intro map_cong [OF refl]) auto
    moreover have "moveCard now listId destListId i j b
          = Inr (b\<lparr>board_lists :=
                   map (\<lambda>e. if e = Some l then Some (l\<lparr>list_cards := ?cs\<rparr>)
                             else if e = Some dst
                             then Some (dst\<lparr>list_cards := take ?k ?cd @ [None] @ drop ?k ?cd\<rparr>)
                             else e) (board_lists b),
                 updatedAt := now\<rparr>)"
      unfolding moveCard_cross [OF c] splice_remove_beyond [OF that] splice_insert
      by (simp cong: if_cong)
    ultimately show ?thesis by (simp only:)
  qed
  have 7: "moveCard now listId destListId i j b
              = Inr (b\<lparr>board_lists :=
                       map (\<lambda>e. if e = Some l
                                 then Some (l\<lparr>list_cards := take (nat i) ?cs @ drop (Suc (nat i)) ?cs\<rparr>)
                                 else if e = Some dst
                                 then Some (dst\<lparr>list_cards := ?cd @ [?cs ! nat i]\<rparr>)
                                 else e) (board_lists b),
                     updatedAt := now\<rparr>)"
    if h: "0 \<le> i \<and> nat i < length ?cs \<and> int (length ?cd) \<le> j"
  proof -
    from h have v: "0 \<le> i" "nat i < length ?cs" by simp_all
    from h have k: "?k = length ?cd" by (auto simp: relative_start_def)
    show ?thesis
      unfolding moveCard_cross [OF c] splice_remove_valid [OF v] splice_insert k
      by (simp cong: if_cong)
  qed
    from 6 7 show ?thesis by blast
  qed
  from 1 2 3 4 5 8 9 show ?thesis by blast
qed

theorem indices_are_not_validated_witness:
  "lists_defined scenario_board \<and> distinct (list_ids scenario_board)
   \<and> ''todo'' \<in> set (list_ids scenario_board)
   \<and> moveCard ''2026-01-02T00:00:00.000Z'' ''todo'' ''todo'' 5 0 scenario_board
       = reorderCards ''2026-01-02T00:00:00.000Z'' ''todo'' 5 0 scenario_board
   \<and> moveCard ''2026-01-02T00:00:00.000Z'' ''todo'' ''done'' 5 0 scenario_board
       = Inr (scenario_board
               \<lparr>board_lists :=
                  [Some \<lparr>list_id = ''todo'', list_title = ''Todo'',
                         list_cards =
                           [Some \<lparr>card_id = ''C1'', card_title = ''first'',
                                  card_description = None, card_comments = [],
                                  card_createdAt = ''2026-01-01T00:00:00.000Z''\<rparr>,
                            Some \<lparr>card_id = ''C2'', card_title = ''second'',
                                  card_description = None, card_comments = [],
                                  card_createdAt = ''2026-01-01T00:00:00.000Z''\<rparr>]\<rparr>,
                   Some \<lparr>list_id = ''done'', list_title = ''Done'', list_cards = [None]\<rparr>],
                updatedAt := ''2026-01-02T00:00:00.000Z''\<rparr>)
   \<and> moveCard ''2026-01-02T00:00:00.000Z'' ''todo'' ''done'' 0 9 scenario_board
       = Inr (scenario_board
               \<lparr>board_lists :=
                  [Some \<lparr>list_id = ''todo'', list_title = ''Todo'',
                         list_cards =
                           [Some \<lparr>card_id = ''C2'', card_title = ''second'',
                                  card_description = None, card_comments = [],
                                  card_createdAt = ''2026-01-01T00:00:00.000Z''\<rparr>]\<rparr>,
                   Some \<lparr>list_id = ''done'', list_title = ''Done'',
                         list_cards =
                           [Some \<lparr>card_id = ''C1'', card_title = ''first'',
                                  card_description = None, card_comments = [],
                                  card_createdAt = ''2026-01-01T00:00:00.000Z''\<rparr>]\<rparr>],
                updatedAt := ''2026-01-02T00:00:00.000Z''\<rparr>)"
proof -
  let ?todo = "\<lparr>list_id = ''todo'', list_title = ''Todo'',
                list_cards =
                  [Some \<lparr>card_id = ''C1'', card_title = ''first'', card_description = None,
                         card_comments = [], card_createdAt = ''2026-01-01T00:00:00.000Z''\<rparr>,
                   Some \<lparr>card_id = ''C2'', card_title = ''second'', card_description = None,
                         card_comments = [], card_createdAt = ''2026-01-01T00:00:00.000Z''\<rparr>]\<rparr>"
  let ?done = "\<lparr>list_id = ''done'', list_title = ''Done'', list_cards = []\<rparr>"
  have h1: "lists_defined scenario_board"
    by (simp add: lists_defined_def scenario_board_def)
  have h2: "distinct (list_ids scenario_board)"
    by (simp add: list_ids_def scenario_board_def)
  have h3: "find_list ''todo'' (board_lists scenario_board) = Inr (Some ?todo)"
    by (simp add: scenario_board_def)
  have h4: "find_list ''done'' (board_lists scenario_board) = Inr (Some ?done)"
    by (simp add: scenario_board_def)
  have h5: "''todo'' \<in> set (list_ids scenario_board)"
    by (simp add: list_ids_def scenario_board_def)
  note t = indices_are_not_validated [where now = "''2026-01-02T00:00:00.000Z''"
      and b = scenario_board and listId = "''todo''" and destListId = "''done''"
      and l = ?todo and dst = ?done and xs = "board_lists scenario_board"]
  have s: "moveCard ''2026-01-02T00:00:00.000Z'' ''todo'' ''todo'' 5 0 scenario_board
             = reorderCards ''2026-01-02T00:00:00.000Z'' ''todo'' 5 0 scenario_board"
    using t [where i = 5 and j = 0] h1 h2 h5 by simp
  have a: "moveCard ''2026-01-02T00:00:00.000Z'' ''todo'' ''done'' 5 0 scenario_board
             = Inr (scenario_board
                     \<lparr>board_lists :=
                        map (\<lambda>e. if e = Some ?done
                                  then Some (?done\<lparr>list_cards :=
                                               take (relative_start 0 (length (list_cards ?done)))
                                                 (list_cards ?done)
                                               @ [None]
                                               @ drop (relative_start 0 (length (list_cards ?done)))
                                                   (list_cards ?done)\<rparr>)
                                  else e) (board_lists scenario_board),
                      updatedAt := ''2026-01-02T00:00:00.000Z''\<rparr>)"
    using t [where i = 5 and j = 0] h1 h2 h3 h4 by simp
  have b: "moveCard ''2026-01-02T00:00:00.000Z'' ''todo'' ''done'' 0 9 scenario_board
             = Inr (scenario_board
                     \<lparr>board_lists :=
                        map (\<lambda>e. if e = Some ?todo
                                  then Some (?todo\<lparr>list_cards :=
                                               take (nat 0) (list_cards ?todo)
                                                 @ drop (Suc (nat 0)) (list_cards ?todo)\<rparr>)
                                  else if e = Some ?done
                                  then Some (?done\<lparr>list_cards :=
                                               list_cards ?done @ [list_cards ?todo ! nat 0]\<rparr>)
                                  else e) (board_lists scenario_board),
                      updatedAt := ''2026-01-02T00:00:00.000Z''\<rparr>)"
    using t [where i = 0 and j = 9] h1 h2 h3 h4 by simp
  show ?thesis
    using h1 h2 h5 by (simp add: a b s) (simp add: scenario_board_def relative_start_def)
qed

section \<open>The timestamp written by the operations\<close>

lemma map_js_succeeds:
  "(\<And>x. x \<in> set xs \<Longrightarrow> \<exists>y. f x = Inr y) \<Longrightarrow> \<exists>ys. map_js f xs = Inr ys"
proof (induction xs)
  case Nil
  then show ?case by simp
next
  case (Cons a xs)
  then obtain y ys where "f a = Inr y" and "map_js f xs = Inr ys"
    by (metis list.set_intros(1,2))
  then show ?case by simp
qed

lemma filter_js_succeeds:
  "(\<And>x. x \<in> set xs \<Longrightarrow> \<exists>y. p x = Inr y) \<Longrightarrow> \<exists>ys. filter_js p xs = Inr ys"
proof (induction xs)
  case Nil
  then show ?case by simp
next
  case (Cons a xs)
  then obtain y ys where "p a = Inr y" and "filter_js p xs = Inr ys"
    by (metis list.set_intros(1,2))
  then show ?case by simp
qed

lemma with_lists_stamped: "r = Inr ls \<Longrightarrow> stamped now b (with_lists now b r)"
  by (simp add: stamped_def with_lists_def)

lemma at_list_succeeds:
  assumes "list_all (\<lambda>entry. entry \<noteq> None) xs"
    and "\<And>l. l \<in> set (defined xs) \<Longrightarrow> \<exists>l'. f l = Inr l'"
  shows "\<exists>ys. map_js (at_list listId f) xs = Inr ys"
proof (rule map_js_succeeds)
  fix e assume e: "e \<in> set xs"
  with assms(1) obtain l where l: "e = Some l" by (auto simp: list_all_iff)
  with e have "l \<in> set (defined xs)" by (simp add: defined_mem)
  then obtain l' where "f l = Inr l'" using assms(2) by blast
  with l show "\<exists>y. at_list listId f e = Inr y" by (simp add: at_list_def)
qed

lemma on_cards_succeeds:
  assumes "list_all (\<lambda>entry. entry \<noteq> None) (list_cards l)"
  shows "\<exists>l'. on_cards (at_card cardId g) l = Inr l'"
proof -
  have "\<exists>cs. map_js (at_card cardId g) (list_cards l) = Inr cs"
  proof (rule map_js_succeeds)
    fix e assume "e \<in> set (list_cards l)"
    with assms obtain c where "e = Some c" by (auto simp: list_all_iff)
    then show "\<exists>y. at_card cardId g e = Inr y" by (simp add: at_card_def)
  qed
  then show ?thesis by (auto simp: on_cards_def)
qed

lemma filter_cards_succeeds:
  assumes "list_all (\<lambda>entry. entry \<noteq> None) (list_cards l)"
  shows "\<exists>l'. (case filter_js (\<lambda>entry. case entry of None \<Rightarrow> Inl TypeError
                                                    | Some c \<Rightarrow> Inr (card_id c \<noteq> cardId))
                       (list_cards l) of
                 Inl e \<Rightarrow> Inl e
               | Inr cs \<Rightarrow> Inr (l\<lparr>list_cards := cs\<rparr>)) = Inr l'"
proof -
  have "\<exists>cs. filter_js (\<lambda>entry. case entry of None \<Rightarrow> Inl TypeError
                                            | Some c \<Rightarrow> Inr (card_id c \<noteq> cardId))
               (list_cards l) = Inr cs"
  proof (rule filter_js_succeeds)
    fix e assume "e \<in> set (list_cards l)"
    with assms obtain c where "e = Some c" by (auto simp: list_all_iff)
    then show "\<exists>y. (case e of None \<Rightarrow> Inl TypeError | Some c \<Rightarrow> Inr (card_id c \<noteq> cardId)) = Inr y"
      by simp
  qed
  then show ?thesis by auto
qed

lemma filter_lists_succeeds:
  assumes "list_all (\<lambda>entry. entry \<noteq> None) xs"
  shows "\<exists>ys. filter_js (\<lambda>entry. case entry of None \<Rightarrow> Inl TypeError
                                             | Some l \<Rightarrow> Inr (list_id l \<noteq> listId)) xs = Inr ys"
proof (rule filter_js_succeeds)
  fix e assume "e \<in> set xs"
  with assms obtain l where "e = Some l" by (auto simp: list_all_iff)
  then show "\<exists>y. (case e of None \<Rightarrow> Inl TypeError | Some l \<Rightarrow> Inr (list_id l \<noteq> listId)) = Inr y"
    by simp
qed

lemma stamped_at_list:
  assumes "list_all (\<lambda>entry. entry \<noteq> None) (board_lists b)"
    and "\<And>l. l \<in> set (defined (board_lists b)) \<Longrightarrow> \<exists>l'. f l = Inr l'"
  shows "stamped now b (with_lists now b (map_js (at_list listId f) (board_lists b)))"
proof -
  have "\<exists>ys. map_js (at_list listId f) (board_lists b) = Inr ys"
    using assms(1) by (rule at_list_succeeds) (rule assms(2))
  then obtain ys where "map_js (at_list listId f) (board_lists b) = Inr ys" ..
  then show ?thesis by (rule with_lists_stamped)
qed

text \<open>
  Claim C6, as stated: every operation sets \<open>updatedAt\<close> to the time of the call, so the
  result's \<open>updatedAt\<close> is never earlier than the input's. It fails for \<open>resetBoard\<close>, which
  returns \<open>DEFAULT_BOARD\<close> with the \<open>updatedAt\<close> computed when the module was loaded: a board
  edited in June and then reset gets the January timestamp of the load.
\<close>

theorem resetBoard_moves_updatedAt_back:
  "updatedAt (resetBoard ''2026-01-01T00:00:00.000Z''
                (updateBoardTitle ''2026-06-01T00:00:00.000Z'' ''X''
                   (DEFAULT_BOARD ''2026-01-01T00:00:00.000Z'')))
     < updatedAt (updateBoardTitle ''2026-06-01T00:00:00.000Z'' ''X''
                    (DEFAULT_BOARD ''2026-01-01T00:00:00.000Z''))"
  by (simp add: resetBoard_def updateBoardTitle_def DEFAULT_BOARD_def less_char_def)

text \<open>
  Claim C6, amended: on a board without \<open>undefined\<close> entries, every operation other than
  \<open>resetBoard\<close> and other than a \<open>moveCard\<close> that does not find one of its lists returns a
  board whose \<open>updatedAt\<close> is the time of the call, hence not earlier than the input's
  \<open>updatedAt\<close> whenever the clock reading is not. \<open>moveCard\<close> that does not find a list
  returns the input board with its \<open>updatedAt\<close>, and \<open>resetBoard\<close> returns the default board
  with the time the module was loaded.
\<close>

theorem operations_stamp_updatedAt:
  assumes "lists_defined b" and "cards_defined b"
  shows "stamped now b (Inr (updateBoardTitle now title b))
       \<and> stamped now b (Inr (addList now newId title b))
       \<and> stamped now b (Inr (reorderLists now i j b))
       \<and> stamped now b (updateListTitle now listId title b)
       \<and> stamped now b (deleteList now listId b)
       \<and> stamped now b (deleteAllCards now listId b)
       \<and> stamped now b (addCard now created newId listId title b)
       \<and> stamped now b (updateCardTitle now listId cardId title b)
       \<and> stamped now b (deleteCard now listId cardId b)
       \<and> stamped now b (reorderCards now listId i j b)
       \<and> stamped now b (addComment now created newId listId cardId msg b)
       \<and> (listId \<in> set (list_ids b) \<and> destListId \<in> set (list_ids b) \<longrightarrow>
            stamped now b (moveCard now listId destListId i j b))
       \<and> (listId \<notin> set (list_ids b) \<or> destListId \<notin> set (list_ids b) \<longrightarrow>
            moveCard now listId destListId i j b = Inr b)
       \<and> updatedAt (resetBoard loaded b) = loaded"
proof -
  have d: "list_all (\<lambda>entry. entry \<noteq> None) (board_lists b)"
    using assms(1) by (simp add: lists_defined_def)
  have c: "list_all (\<lambda>entry. entry \<noteq> None) (list_cards l)" if "l \<in> set (defined (board_lists b))" for l
    using assms(2) that by (simp add: cards_defined_def list_all_iff)
  have 1: "stamped now b (Inr (updateBoardTitle now title b))"
    by (simp add: stamped_def updateBoardTitle_def)
  have 2: "stamped now b (Inr (addList now newId title b))"
    by (simp add: stamped_def addList_def)
  have 3: "stamped now b (Inr (reorderLists now i j b))"
    by (simp add: stamped_def reorderLists_def)
  have 4: "stamped now b (updateListTitle now listId title b)"
    unfolding updateListTitle_def using d by (rule stamped_at_list) simp
  have 5: "stamped now b (deleteList now listId b)"
    using filter_lists_succeeds [OF d] unfolding deleteList_def
    by (blast intro: with_lists_stamped)
  have 6: "stamped now b (deleteAllCards now listId b)"
    unfolding deleteAllCards_def using d by (rule stamped_at_list) simp
  have 7: "stamped now b (addCard now created newId listId title b)"
    unfolding addCard_def Let_def using d by (rule stamped_at_list) simp
  have 8: "stamped now b (updateCardTitle now listId cardId title b)"
    unfolding updateCardTitle_def using d
    by (rule stamped_at_list) (rule on_cards_succeeds [OF c])
  have 9: "stamped now b (deleteCard now listId cardId b)"
    unfolding deleteCard_def using d
    by (rule stamped_at_list) (rule filter_cards_succeeds [OF c])
  have 10: "stamped now b (reorderCards now listId i j b)"
    unfolding reorderCards_def using d by (rule stamped_at_list) simp
  have 11: "stamped now b (addComment now created newId listId cardId msg b)"
    unfolding addComment_def Let_def using d
    by (rule stamped_at_list) (rule on_cards_succeeds [OF c])
  have 12: "stamped now b (moveCard now listId destListId i j b)"
    if "listId \<in> set (list_ids b) \<and> destListId \<in> set (list_ids b)"
  proof -
    from that have "listId \<in> list_id ` set (defined (board_lists b))"
      and "destListId \<in> list_id ` set (defined (board_lists b))"
      by (simp_all add: list_ids_def)
    then obtain src dst
      where "find_list listId (board_lists b) = Inr (Some src)"
        and "find_list destListId (board_lists b) = Inr (Some dst)"
      using find_list_present [OF d] by blast
    then show ?thesis
      by (simp add: moveCard_found [OF assms(1)] stamped_def)
  qed
  have 13: "moveCard now listId destListId i j b = Inr b"
    if "listId \<notin> set (list_ids b) \<or> destListId \<notin> set (list_ids b)"
    using that missing_list_results(9,10) [OF assms(1)] by blast
  have 14: "updatedAt (resetBoard loaded b) = loaded"
    by (simp add: resetBoard_def DEFAULT_BOARD_def)
  from 1 2 3 4 5 6 7 8 9 10 11 12 13 14 show ?thesis by blast
qed

theorem operations_stamp_updatedAt_witness:
  "lists_defined (DEFAULT_BOARD ''2026-01-01T00:00:00.000Z'') \<and> cards_defined (DEFAULT_BOARD ''2026-01-01T00:00:00.000Z'')
   \<and> stamped ''2026-01-02T00:00:00.000Z'' (DEFAULT_BOARD ''2026-01-01T00:00:00.000Z'')
         (addComment ''2026-01-02T00:00:00.000Z'' ''2026-01-02T00:00:00.000Z'' ''comment-x'' ''list-1'' ''card-1'' ''hello'' (DEFAULT_BOARD ''2026-01-01T00:00:00.000Z''))
   \<and> stamped ''2026-01-02T00:00:00.000Z'' (DEFAULT_BOARD ''2026-01-01T00:00:00.000Z'')
         (moveCard ''2026-01-02T00:00:00.000Z'' ''list-1'' ''list-3'' 0 0 (DEFAULT_BOARD ''2026-01-01T00:00:00.000Z''))
   \<and> moveCard ''2026-01-02T00:00:00.000Z'' ''list-1'' ''list-9'' 0 0 (DEFAULT_BOARD ''2026-01-01T00:00:00.000Z'') = Inr (DEFAULT_BOARD ''2026-01-01T00:00:00.000Z'')"
proof -
  have h1: "lists_defined (DEFAULT_BOARD ''2026-01-01T00:00:00.000Z'')"
    by (simp add: lists_defined_def DEFAULT_BOARD_def)
  have h2: "cards_defined (DEFAULT_BOARD ''2026-01-01T00:00:00.000Z'')"
    by (simp add: cards_defined_def DEFAULT_BOARD_def)
  have m: "''list-1'' \<in> set (list_ids (DEFAULT_BOARD ''2026-01-01T00:00:00.000Z''))"
    "''list-3'' \<in> set (list_ids (DEFAULT_BOARD ''2026-01-01T00:00:00.000Z''))"
    "''list-9'' \<notin> set (list_ids (DEFAULT_BOARD ''2026-01-01T00:00:00.000Z''))"
    by (simp_all add: list_ids_def DEFAULT_BOARD_def)
  show ?thesis
    using h1 h2 m
      operations_stamp_updatedAt [OF h1 h2, where now = "''2026-01-02T00:00:00.000Z''" and listId = "''list-1''"
        and destListId = "''list-3''" and i = 0 and j = 0 and newId = "''comment-x''"
        and cardId = "''card-1''" and msg = "''hello''"]
      operations_stamp_updatedAt [OF h1 h2, where now = "''2026-01-02T00:00:00.000Z''" and listId = "''list-1''"
        and destListId = "''list-9''" and i = 0 and j = 0]
    by simp
qed

section \<open>The storage hook\<close>

lemma nwbr_append_read:
  "list_all (\<lambda>c. c = RemoveItem) xs \<Longrightarrow> no_write_before_read (xs @ [GetItem])"
  by (induction xs) auto

lemma nwbr_append:
  "no_write_before_read xs \<Longrightarrow> count_list xs GetItem = 1 \<Longrightarrow> no_write_before_read (xs @ ys)"
  by (induction xs rule: no_write_before_read.induct) auto

lemma nwbr_removes: "list_all (\<lambda>c. c = RemoveItem) xs \<Longrightarrow> no_write_before_read xs"
  by (induction xs) auto

lemma count_removes: "list_all (\<lambda>c. c = RemoveItem) xs \<Longrightarrow> count_list xs GetItem = 0"
  by (induction xs) auto

lemma count_snoc: "count_list (xs @ [c]) GetItem = count_list xs GetItem + (if c = GetItem then 1 else 0)"
  by (induction xs) auto

lemma write_effect_inv:
  assumes "hook_inv h" and "hyd = isHydrated h"
  shows "hook_inv (write_effect serializer v hyd h)"
  using assms
  by (auto simp: hook_inv_def write_effect_def setItem_def count_snoc nwbr_append
           split: sum.splits if_splits)

lemma commit_inv: "hook_inv n \<Longrightarrow> hook_inv (commit same serializer p n)"
  by (simp add: commit_def write_effect_inv)

lemma hydrate_effect_inv: "hook_inv h \<Longrightarrow> hook_inv (hydrate_effect deserializer h)"
  by (auto simp: hook_inv_def hydrate_effect_def getItem_def Let_def count_snoc count_removes
        nwbr_append_read split: sum.splits option.splits)

lemma setValue_inv: "hook_inv h \<Longrightarrow> hook_inv (setValue f h)"
  by (simp add: hook_inv_def setValue_def)

lemma removeValue_inv: "hook_inv h \<Longrightarrow> hook_inv (removeValue d h)"
  by (auto simp: hook_inv_def removeValue_def removeItem_def Let_def count_snoc nwbr_append
        split: sum.splits if_splits)

lemma handleStorageChange_inv:
  "hook_inv h \<Longrightarrow> hook_inv (handleStorageChange key deserializer k v h)"
  by (auto simp: hook_inv_def handleStorageChange_def split: sum.splits option.splits)

lemma step_inv: "hook_inv h \<Longrightarrow> hook_inv (step key deserializer serializer same d ev h)"
  by (cases ev)
     (simp_all add: step_def commit_inv hydrate_effect_inv setValue_inv removeValue_inv
        handleStorageChange_inv)

lemma run_inv: "hook_inv h \<Longrightarrow> hook_inv (run key deserializer serializer same d evs h)"
  by (induction evs arbitrary: h) (simp_all add: step_inv)

lemma initial_inv: "hook_inv (initial_hook d st)"
  by (simp add: hook_inv_def initial_hook_def)

lemma inv_calls: "hook_inv h \<Longrightarrow> count_list (calls h) GetItem \<le> 1 \<and> no_write_before_read (calls h)"
proof (cases "isFirstRender h")
  case True
  assume "hook_inv h"
  with True have r: "list_all (\<lambda>c. c = RemoveItem) (calls h)" by (simp add: hook_inv_def)
  then show ?thesis by (simp add: count_removes nwbr_removes)
next
  case False
  assume "hook_inv h"
  with False show ?thesis by (simp add: hook_inv_def)
qed

subsection \<open>A change made by another tab\<close>

text \<open>
  Claim C7, as stated: a value received with a \<open>storage\<close> event replaces the state without
  a write to storage by the receiving instance. It fails: the handler calls the same
  state setter as every other update and \<open>storedValue\<close> is a dependency of the writing
  effect. An instance of the hook on strings, hydrated from empty storage, that receives
  the value \<open>X\<close> for its key calls \<open>setItem\<close> with \<open>X\<close>.
\<close>

theorem storage_event_is_written_back:
  "calls (step ''trello-clone-board'' (Inr :: string \<Rightarrow> unit + string) Inr (=) ''default''
            (StorageEvent ''trello-clone-board'' (Some ''X''))
            (step ''trello-clone-board'' Inr Inr (=) ''default'' Activate
               (initial_hook ''default'' \<lparr>entry = None, readable = True, writable = True\<rparr>)))
     = calls (step ''trello-clone-board'' (Inr :: string \<Rightarrow> unit + string) Inr (=) ''default'' Activate
               (initial_hook ''default'' \<lparr>entry = None, readable = True, writable = True\<rparr>))
         @ [SetItem ''X'']"
  by (simp add: step_def commit_def handleStorageChange_def hydrate_effect_def write_effect_def
        initial_hook_def getItem_def setItem_def)

text \<open>
  Claim C7, amended: when a hydrated instance receives a \<open>storage\<close> event for its key
  carrying a value that deserializes, the state becomes the deserialized value. The
  replacement goes through the same state setter as every local update: unless the value
  is \<open>Object.is\<close>-identical to the previous state, the writing effect then calls \<open>setItem\<close>
  with the serialization of the received value, so nothing bypasses the write-through.
\<close>

theorem storage_event_replaces_state:
  assumes "isHydrated h" and "deserializer v = Inr x"
  shows "storedValue (step key deserializer serializer same d (StorageEvent key (Some v)) h) = x
       \<and> (\<not> same (storedValue h) x \<longrightarrow>
            calls (step key deserializer serializer same d (StorageEvent key (Some v)) h)
              = calls h @ (case serializer x of Inl e \<Rightarrow> [] | Inr s \<Rightarrow> [SetItem s]))
       \<and> (same (storedValue h) x \<longrightarrow>
            calls (step key deserializer serializer same d (StorageEvent key (Some v)) h)
              = calls h)"
  using assms
  by (auto simp: step_def commit_def handleStorageChange_def write_effect_def setItem_def
           split: sum.splits)

theorem storage_event_replaces_state_witness:
  "isHydrated
     (step ''trello-clone-board'' (Inr :: string \<Rightarrow> unit + string) Inr (=) ''default'' Activate
        (initial_hook ''default'' \<lparr>entry = None, readable = True, writable = True\<rparr>))
   \<and> (Inr :: string \<Rightarrow> unit + string) ''X'' = Inr ''X''
   \<and> storedValue
         (step ''trello-clone-board'' (Inr :: string \<Rightarrow> unit + string) Inr (=) ''default''
            (StorageEvent ''trello-clone-board'' (Some ''X''))
            (step ''trello-clone-board'' (Inr :: string \<Rightarrow> unit + string) Inr (=) ''default''
               Activate
               (initial_hook ''default'' \<lparr>entry = None, readable = True, writable = True\<rparr>)))
       = ''X''
   \<and> calls
         (step ''trello-clone-board'' (Inr :: string \<Rightarrow> unit + string) Inr (=) ''default''
            (StorageEvent ''trello-clone-board'' (Some ''X''))
            (step ''trello-clone-board'' (Inr :: string \<Rightarrow> unit + string) Inr (=) ''default''
               Activate
               (initial_hook ''default'' \<lparr>entry = None, readable = True, writable = True\<rparr>)))
       = [GetItem, SetItem ''default'', SetItem ''X'']"
proof -
  let ?h = "step ''trello-clone-board'' (Inr :: string \<Rightarrow> unit + string) Inr (=) ''default''
              Activate
              (initial_hook ''default'' \<lparr>entry = None, readable = True, writable = True\<rparr>)"
  have h1: "isHydrated ?h"
    by (simp add: step_def commit_def hydrate_effect_def write_effect_def initial_hook_def
          getItem_def setItem_def)
  have h2: "(Inr :: string \<Rightarrow> unit + string) ''X'' = Inr ''X''" by simp
  have s: "storedValue ?h = ''default''" and c: "calls ?h = [GetItem, SetItem ''default'']"
    by (simp_all add: step_def commit_def hydrate_effect_def write_effect_def initial_hook_def
          getItem_def setItem_def)
  show ?thesis
    using h1
      storage_event_replaces_state [where deserializer = "Inr :: string \<Rightarrow> unit + string"
        and v = "''X''" and x = "''X''" and key = "''trello-clone-board''"
        and serializer = Inr and same = "(=)" and d = "''default''" and h = ?h, OF h1 h2]
    by (simp add: s c)
qed

subsection \<open>Stored bytes that do not deserialize\<close>

text \<open>
  Claim C8: when the stored string fails to deserialize during the initial read, the
  failure is caught: the state stays the caller's default, the instance becomes hydrated,
  and the effect leaves the instance as it does for absent data, the storage entry and
  one logged message apart. \<open>safeJsonParse\<close> returns its fallback in the same case.
\<close>

theorem failed_deserialization_keeps_default:
  assumes "getItem st = Inr (Some item)" and "deserializer item = Inl e"
  shows "storedValue (step key deserializer serializer same d Activate (initial_hook d st)) = d
       \<and> isHydrated (step key deserializer serializer same d Activate (initial_hook d st))
       \<and> hydrate_effect deserializer (initial_hook d st)
           = (hydrate_effect deserializer (initial_hook d (st\<lparr>entry := None\<rparr>)))
               \<lparr>store := st, logged := (if item = [] then 0 else 1)\<rparr>
       \<and> safeJsonParse deserializer item d = d"
  using assms
  by (auto simp: step_def commit_def hydrate_effect_def write_effect_def initial_hook_def
        getItem_def setItem_def safeJsonParse_def Let_def split: sum.splits if_splits)

theorem failed_deserialization_keeps_default_witness:
  "getItem \<lparr>entry = Some ''{'', readable = True, writable = True\<rparr> = Inr (Some ''{'')
   \<and> (if ''{'' = ''{'' then Inl () else Inr ''{'') = (Inl () :: unit + string)
   \<and> storedValue
         (step ''trello-clone-board'' (\<lambda>s. if s = ''{'' then Inl () else Inr s) Inr (=) ''default''
            Activate
            (initial_hook ''default'' \<lparr>entry = Some ''{'', readable = True, writable = True\<rparr>))
       = ''default''"
proof -
  have h1: "getItem \<lparr>entry = Some ''{'', readable = True, writable = True\<rparr> = Inr (Some ''{'')"
    by (simp add: getItem_def)
  have h2: "(\<lambda>s. if s = ''{'' then Inl () else Inr s) ''{'' = (Inl () :: unit + string)"
    by simp
  show ?thesis
    using h1
      failed_deserialization_keeps_default
        [where deserializer = "\<lambda>s. if s = ''{'' then Inl () else Inr s" and item = "''{''"
          and st = "\<lparr>entry = Some ''{'', readable = True, writable = True\<rparr>"
          and key = "''trello-clone-board''" and serializer = Inr and same = "(=)"
          and d = "''default''", OF h1 h2]
    by simp
qed

subsection \<open>No write before the initial read\<close>

text \<open>
  Claim C10: whatever events an instance receives and however often the first effect
  fires, \<open>getItem\<close> is called at most once and no \<open>setItem\<close> is called before it; and when
  the stored string deserializes, the first activation makes the deserialized value the
  state and the only value written is its serialization, not the caller's default.
\<close>

theorem no_write_before_initial_read:
  "count_list (calls (run key deserializer serializer same d evs (initial_hook d st))) GetItem \<le> 1
   \<and> no_write_before_read (calls (run key deserializer serializer same d evs (initial_hook d st)))
   \<and> (getItem st = Inr (Some item) \<and> item \<noteq> [] \<and> deserializer item = Inr v \<longrightarrow>
        storedValue (step key deserializer serializer same d Activate (initial_hook d st)) = v
        \<and> calls (step key deserializer serializer same d Activate (initial_hook d st))
            = GetItem # (case serializer v of Inl e \<Rightarrow> [] | Inr s \<Rightarrow> [SetItem s]))"
proof -
  have "hook_inv (run key deserializer serializer same d evs (initial_hook d st))"
    using initial_inv by (rule run_inv)
  then have a: "count_list (calls (run key deserializer serializer same d evs (initial_hook d st))) GetItem \<le> 1
          \<and> no_write_before_read (calls (run key deserializer serializer same d evs (initial_hook d st)))"
    by (rule inv_calls)
  have b: "storedValue (step key deserializer serializer same d Activate (initial_hook d st)) = v
        \<and> calls (step key deserializer serializer same d Activate (initial_hook d st))
            = GetItem # (case serializer v of Inl e \<Rightarrow> [] | Inr s \<Rightarrow> [SetItem s])"
    if "getItem st = Inr (Some item) \<and> item \<noteq> [] \<and> deserializer item = Inr v"
    using that
    by (auto simp: step_def commit_def hydrate_effect_def write_effect_def initial_hook_def
          getItem_def setItem_def Let_def split: sum.splits if_splits)
  from a b show ?thesis by blast
qed

theorem no_write_before_initial_read_witness:
  "getItem \<lparr>entry = Some ''saved'', readable = True, writable = True\<rparr> = Inr (Some ''saved'') \<and> ''saved'' \<noteq> []
   \<and> (Inr :: string \<Rightarrow> unit + string) ''saved'' = Inr ''saved''
   \<and> storedValue
         (step ''trello-clone-board'' (Inr :: string \<Rightarrow> unit + string) Inr (=) ''default''
            Activate (initial_hook ''default'' \<lparr>entry = Some ''saved'', readable = True, writable = True\<rparr>))
       = ''saved''
   \<and> calls
         (step ''trello-clone-board'' (Inr :: string \<Rightarrow> unit + string) Inr (=) ''default''
            Activate (initial_hook ''default'' \<lparr>entry = Some ''saved'', readable = True, writable = True\<rparr>))
       = [GetItem, SetItem ''saved'']
   \<and> no_write_before_read
         (calls
            (run ''trello-clone-board'' (Inr :: string \<Rightarrow> unit + string) Inr (=) ''default''
               [SetValue (\<lambda>v. ''edited''), Activate, Activate, RemoveValue]
               (initial_hook ''default'' \<lparr>entry = Some ''saved'', readable = True, writable = True\<rparr>)))"
proof -
  have h: "getItem \<lparr>entry = Some ''saved'', readable = True, writable = True\<rparr> = Inr (Some ''saved'')"
    by (simp add: getItem_def)
  show ?thesis
    using h
      no_write_before_initial_read [where key = "''trello-clone-board''"
        and deserializer = "Inr :: string \<Rightarrow> unit + string" and serializer = Inr
        and same = "(=)" and d = "''default''" and st = "\<lparr>entry = Some ''saved'', readable = True, writable = True\<rparr>"
        and item = "''saved''" and v = "''saved''"
        and evs = "[SetValue (\<lambda>v. ''edited''), Activate, Activate, RemoveValue]"]
    by simp
qed

end
